theory Spec2Isabelle
  imports Complex_Main "HOL-Library.Sublist" "HOL-Library.Multiset"
begin

section \<open>Data model of the retrieval pipeline\<close>

text \<open>
  The definitions below are a shallow embedding of the retrieval and context-assembly
  code of \<^verbatim>\<open>src/services/geminiService.js\<close>, of the chunk store
  (\<^verbatim>\<open>storeDocumentChunks\<close>, \<^verbatim>\<open>performVectorSearch\<close>) and of
  \<^verbatim>\<open>getContextMessages\<close> in \<^verbatim>\<open>src/hooks/useChatSystem.js\<close>.

  JavaScript strings are modelled as \<^typ>\<open>string\<close>: a list of code units, so that
  \<^verbatim>\<open>s.substring(0, n)\<close> is \<^term>\<open>take n s\<close> and \<^verbatim>\<open>+\<close> is \<^term>\<open>(@)\<close>.
\<close>

subsection \<open>Documents\<close>

text \<open>
  A page value as it occurs in chunk metadata: a number or a string. JavaScript treats
  \<^verbatim>\<open>0\<close> and \<^verbatim>\<open>""\<close> as false in \<^verbatim>\<open>a || b\<close> and \<^verbatim>\<open>p ? x : y\<close>.
\<close>

datatype page_value = PageNum nat | PageStr string

record metadata =
  source :: "string option"
  document_title :: "string option"
  page :: "page_value option"
  pageNumber :: "page_value option"

text \<open>
  A retrieved chunk is a LangChain \<^verbatim>\<open>Document\<close>: its constructor always stores a
  string \<^verbatim>\<open>pageContent\<close> and an object \<^verbatim>\<open>metadata\<close>. The field
  \<^verbatim>\<open>content\<close> is the alternative the context assembler reads when
  \<^verbatim>\<open>pageContent\<close> is empty; \<^term>\<open>None\<close> is \<^verbatim>\<open>undefined\<close>.
\<close>

record document =
  pageContent :: string
  content :: "string option"
  metadata :: metadata

subsection \<open>deduplicateDocuments\<close>

text \<open>\<^verbatim>\<open>const contentId = doc.pageContent.substring(0, 100)\<close>\<close>

definition contentId :: "document \<Rightarrow> string" where
  "contentId doc = take 100 (pageContent doc)"

text \<open>
  The \<^verbatim>\<open>forEach\<close> of \<^verbatim>\<open>deduplicateDocuments\<close>: the state is the
  \<^verbatim>\<open>Map\<close> \<^verbatim>\<open>uniqueDocs\<close> and the array \<^verbatim>\<open>result\<close>.
\<close>

fun dedup_forEach ::
  "document list \<Rightarrow> (string \<rightharpoonup> document) \<times> document list
     \<Rightarrow> (string \<rightharpoonup> document) \<times> document list" where
  "dedup_forEach [] st = st"
| "dedup_forEach (doc # docs) (uniqueDocs, result) =
     (if uniqueDocs (contentId doc) = None
      then dedup_forEach docs (uniqueDocs(contentId doc \<mapsto> doc), result @ [doc])
      else dedup_forEach docs (uniqueDocs, result))"

definition deduplicateDocuments :: "document list \<Rightarrow> document list" where
  "deduplicateDocuments docs = snd (dedup_forEach docs (Map.empty, []))"

subsection \<open>formatChatHistory and its caller getContextMessages\<close>

record chat_message =
  role :: string
  msg_content :: string

text \<open>An entry of the history handed to the model: \<^verbatim>\<open>{role, parts: [{text}]}\<close>.\<close>

record history_entry =
  entry_role :: string
  parts :: "string list"

text \<open>
  The argument is \<^term>\<open>None\<close> when \<^verbatim>\<open>conversationHistory\<close> is missing or not an
  array.
\<close>

definition formatChatHistory :: "chat_message list option \<Rightarrow> history_entry list" where
  "formatChatHistory conversationHistory =
     (case conversationHistory of
        None \<Rightarrow> []
      | Some msgs \<Rightarrow>
          if length msgs = 0 then []
          else map (\<lambda>msg. \<lparr>entry_role = (if role msg = ''user'' then ''user'' else ''model''),
                             parts = [msg_content msg]\<rparr>)
                 (filter (\<lambda>msg. role msg = ''user'' \<or> role msg = ''assistant'') msgs))"




subsection \<open>Numbers of JavaScript\<close>

text \<open>
  A JavaScript number is an IEEE 754 double-precision value: \<^verbatim>\<open>NaN\<close>, an infinity, a
  zero with a sign, or a finite number that is not zero. \<open>Num r\<close> is the number of real
  value \<open>r\<close>, and \<open>Num 0\<close> is \<^verbatim>\<open>+0\<close>. Arithmetic computes the exact real result and
  rounds it to the nearest double, ties to the even significand.
\<close>

datatype double = NaN | PosInf | NegInf | NegZero | Num real

text \<open>
  The binary64 format has 53 significant bits and binary exponents from \<open>emin\<close> to
  \<open>emax\<close>.
\<close>

definition emin :: int where
  "emin = - 1022"

definition emax :: int where
  "emax = 1023"

text \<open>
  The binary exponent of a positive real, not below \<open>emin\<close> (the subnormal numbers share
  the exponent \<open>emin\<close>), and the distance between neighbouring doubles at that exponent.
\<close>

definition binade :: "real \<Rightarrow> int" where
  "binade x = max \<lfloor>log 2 x\<rfloor> emin"

definition ulp :: "real \<Rightarrow> real" where
  "ulp x = 2 powi (binade x - 52)"

text \<open>The nearest integer, the even one of two that are equally near.\<close>

definition round_half_even :: "real \<Rightarrow> int" where
  "round_half_even q =
     (if q - of_int \<lfloor>q\<rfloor> < 1 / 2 then \<lfloor>q\<rfloor>
      else if q - of_int \<lfloor>q\<rfloor> > 1 / 2 then \<lfloor>q\<rfloor> + 1
      else if even \<lfloor>q\<rfloor> then \<lfloor>q\<rfloor> else \<lfloor>q\<rfloor> + 1)"

text \<open>A positive real rounded to a multiple of its unit in the last place.\<close>

definition round_mag :: "real \<Rightarrow> real" where
  "round_mag x = of_int (round_half_even (x / ulp x)) * ulp x"

definition is_infinite :: "double \<Rightarrow> bool" where
  "is_infinite d = (d = PosInf \<or> d = NegInf)"

text \<open>\<^verbatim>\<open>d === 0\<close>, which holds for both zeros.\<close>

definition is_zero :: "double \<Rightarrow> bool" where
  "is_zero d = (d = Num 0 \<or> d = NegZero)"

text \<open>The sign bit, and the real value of a finite number.\<close>

fun negative :: "double \<Rightarrow> bool" where
  "negative NaN = False"
| "negative PosInf = False"
| "negative NegInf = True"
| "negative NegZero = True"
| "negative (Num r) = (r < 0)"

fun num_value :: "double \<Rightarrow> real" where
  "num_value (Num r) = r"
| "num_value _ = 0"

definition zero_of :: "bool \<Rightarrow> double" where
  "zero_of neg = (if neg then NegZero else Num 0)"

definition inf_of :: "bool \<Rightarrow> double" where
  "inf_of neg = (if neg then NegInf else PosInf)"

text \<open>
  The double for a real result \<open>x \<noteq> 0\<close>: an infinity when the rounded magnitude
  reaches \<open>2^(emax + 1)\<close> (overflow), a zero when it is 0 (underflow), each with the sign
  of \<open>x\<close>.
\<close>

definition round_to_double :: "real \<Rightarrow> double" where
  "round_to_double x =
     (if 2 powi (emax + 1) \<le> round_mag \<bar>x\<bar> then inf_of (x < 0)
      else if round_mag \<bar>x\<bar> = 0 then zero_of (x < 0)
      else Num (if x < 0 then - round_mag \<bar>x\<bar> else round_mag \<bar>x\<bar>))"

text \<open>
  \<^verbatim>\<open>a * b\<close>: \<^verbatim>\<open>NaN\<close> is contagious and an infinity times a zero is \<^verbatim>\<open>NaN\<close>; the sign
  of a product is the exclusive or of the signs.
\<close>

definition double_mul :: "double \<Rightarrow> double \<Rightarrow> double" where
  "double_mul a b =
     (if a = NaN \<or> b = NaN then NaN
      else if is_infinite a \<or> is_infinite b
      then (if is_zero a \<or> is_zero b then NaN else inf_of (negative a \<noteq> negative b))
      else if num_value a * num_value b = 0 then zero_of (negative a \<noteq> negative b)
      else round_to_double (num_value a * num_value b))"

text \<open>
  \<^verbatim>\<open>a + b\<close>: infinities of opposite sign add to \<^verbatim>\<open>NaN\<close>; an exact sum of zero is
  \<^verbatim>\<open>-0\<close> only when both operands are \<^verbatim>\<open>-0\<close>.
\<close>

definition double_add :: "double \<Rightarrow> double \<Rightarrow> double" where
  "double_add a b =
     (if a = NaN \<or> b = NaN then NaN
      else if is_infinite a then (if is_infinite b \<and> b \<noteq> a then NaN else a)
      else if is_infinite b then b
      else if num_value a + num_value b = 0 then zero_of (negative a \<and> negative b)
      else round_to_double (num_value a + num_value b))"

text \<open>\<^verbatim>\<open>Math.sqrt(a)\<close>\<close>

definition double_sqrt :: "double \<Rightarrow> double" where
  "double_sqrt a =
     (case a of
        NaN \<Rightarrow> NaN
      | PosInf \<Rightarrow> PosInf
      | NegInf \<Rightarrow> NaN
      | NegZero \<Rightarrow> NegZero
      | Num r \<Rightarrow> if r < 0 then NaN else if r = 0 then Num 0 else round_to_double (sqrt r))"

text \<open>
  \<^verbatim>\<open>a / b\<close>: a division by a zero gives an infinity, or \<^verbatim>\<open>NaN\<close> for a zero
  dividend; it does not throw.
\<close>

definition double_div :: "double \<Rightarrow> double \<Rightarrow> double" where
  "double_div a b =
     (if a = NaN \<or> b = NaN then NaN
      else if is_infinite a then (if is_infinite b then NaN else inf_of (negative a \<noteq> negative b))
      else if is_infinite b then zero_of (negative a \<noteq> negative b)
      else if is_zero b then (if is_zero a then NaN else inf_of (negative a \<noteq> negative b))
      else if num_value a = 0 then zero_of (negative a \<noteq> negative b)
      else round_to_double (num_value a / num_value b))"





subsection \<open>cosineSimilarity\<close>



subsection \<open>Strings, numbers and objects of JavaScript\<close>

definition newline :: char where
  "newline = CHR 0x0A"

definition digit_char :: "nat \<Rightarrow> char" where
  "digit_char d = ''0123456789'' ! d"

text \<open>A non-negative integer in a template literal: its decimal digits.\<close>

fun show_nat :: "nat \<Rightarrow> string" where
  "show_nat n = (if n < 10 then [digit_char n] else show_nat (n div 10) @ [digit_char (n mod 10)])"

declare show_nat.simps [simp del]

text \<open>\<^verbatim>\<open>xs.join(sep)\<close> on an array of strings.\<close>

fun join :: "string \<Rightarrow> string list \<Rightarrow> string" where
  "join sep [] = []"
| "join sep [x] = x"
| "join sep (x # y # ys) = x @ sep @ join sep (y # ys)"

text \<open>\<^verbatim>\<open>s.includes(t)\<close>: \<open>t\<close> occurs in \<open>s\<close> as a contiguous substring.\<close>

definition str_includes :: "string \<Rightarrow> string \<Rightarrow> bool" where
  "str_includes s t = sublist t s"

text \<open>Case conversion of the letters A-Z and a-z; every other code unit is kept.\<close>

definition lower_char :: "char \<Rightarrow> char" where
  "lower_char c =
     (if (65::nat) \<le> of_char c \<and> of_char c \<le> (90::nat) then char_of (of_char c + (32::nat)) else c)"

definition upper_char :: "char \<Rightarrow> char" where
  "upper_char c =
     (if (97::nat) \<le> of_char c \<and> of_char c \<le> (122::nat) then char_of (of_char c - (32::nat)) else c)"

definition toLowerCase :: "string \<Rightarrow> string" where
  "toLowerCase s = map lower_char s"

text \<open>
  A plain object used as a dictionary from strings to strings: its own properties in
  insertion order. Reading a property that the object does not own falls through to
  \<^verbatim>\<open>Object.prototype\<close>, whose properties are functions (or, for
  \<^verbatim>\<open>__proto__\<close>, an object) and therefore true in a condition.
\<close>

type_synonym js_object = "(string \<times> string) list"

definition object_prototype_keys :: "string list" where
  "object_prototype_keys =
     [''constructor'', ''__defineGetter__'', ''__defineSetter__'', ''hasOwnProperty'',
      ''__lookupGetter__'', ''__lookupSetter__'', ''isPrototypeOf'', ''propertyIsEnumerable'',
      ''toString'', ''valueOf'', ''__proto__'', ''toLocaleString'']"

text \<open>\<^verbatim>\<open>obj[key]\<close> read as a condition.\<close>

definition obj_truthy :: "js_object \<Rightarrow> string \<Rightarrow> bool" where
  "obj_truthy obj k =
     (case map_of obj k of
        Some v \<Rightarrow> v \<noteq> []
      | None \<Rightarrow> k \<in> set object_prototype_keys)"

text \<open>\<^verbatim>\<open>obj[key] = v\<close>: an own property keeps its place, a new one is added last.\<close>

fun obj_set :: "js_object \<Rightarrow> string \<Rightarrow> string \<Rightarrow> js_object" where
  "obj_set [] k v = [(k, v)]"
| "obj_set ((k', v') # rest) k v =
     (if k' = k then (k, v) # rest else (k', v') # obj_set rest k v)"

text \<open>
  An array index is the canonical decimal form of an integer below \<open>2^32 - 1\<close>.
  \<^verbatim>\<open>Object.values\<close> lists the properties whose keys are array indices first, in
  ascending numeric order, then the other string keys in insertion order.
\<close>

definition digit_of :: "char \<Rightarrow> nat option" where
  "digit_of c =
     (if (48::nat) \<le> of_char c \<and> of_char c \<le> (57::nat) then Some (of_char c - 48) else None)"

fun parse_digits :: "nat \<Rightarrow> string \<Rightarrow> nat option" where
  "parse_digits acc [] = Some acc"
| "parse_digits acc (c # cs) =
     (case digit_of c of None \<Rightarrow> None | Some d \<Rightarrow> parse_digits (10 * acc + d) cs)"

definition array_index :: "string \<Rightarrow> nat option" where
  "array_index k =
     (if k = [] then None
      else case parse_digits 0 k of
             None \<Rightarrow> None
           | Some n \<Rightarrow> if n < 4294967295 \<and> show_nat n = k then Some n else None)"

definition object_values :: "js_object \<Rightarrow> string list" where
  "object_values obj =
     map snd (sort_key (\<lambda>(k, v). case array_index k of Some n \<Rightarrow> n | None \<Rightarrow> 0)
                (filter (\<lambda>(k, v). array_index k \<noteq> None) obj))
     @ map snd (filter (\<lambda>(k, v). array_index k = None) obj)"

subsection \<open>formatContextFromDocs\<close>

text \<open>
  A citation \<^verbatim>\<open>{source, page, text}\<close>. The page is whatever
  \<^verbatim>\<open>metadata.page || metadata.pageNumber\<close> evaluates to, \<^term>\<open>None\<close> for
  \<^verbatim>\<open>undefined\<close>.
\<close>

record citation =
  cite_source :: string
  cite_page :: "page_value option"
  cite_text :: string

definition truthy_page :: "page_value option \<Rightarrow> bool" where
  "truthy_page p =
     (case p of None \<Rightarrow> False | Some (PageNum n) \<Rightarrow> n \<noteq> 0 | Some (PageStr s) \<Rightarrow> s \<noteq> [])"

text \<open>A page value inside a template literal.\<close>

definition show_page :: "page_value option \<Rightarrow> string" where
  "show_page p =
     (case p of None \<Rightarrow> ''undefined'' | Some (PageNum n) \<Rightarrow> show_nat n | Some (PageStr s) \<Rightarrow> s)"

text \<open>
  \<^verbatim>\<open>doc.metadata?.source || doc.metadata?.document_title || 'Unknown Source'\<close>
\<close>

definition doc_source :: "document \<Rightarrow> string" where
  "doc_source doc =
     (case source (metadata doc) of
        Some s \<Rightarrow>
          if s \<noteq> [] then s
          else (case document_title (metadata doc) of
                  Some t \<Rightarrow> if t \<noteq> [] then t else ''Unknown Source''
                | None \<Rightarrow> ''Unknown Source'')
      | None \<Rightarrow>
          (case document_title (metadata doc) of
             Some t \<Rightarrow> if t \<noteq> [] then t else ''Unknown Source''
           | None \<Rightarrow> ''Unknown Source''))"

text \<open>\<^verbatim>\<open>doc.metadata?.page || doc.metadata?.pageNumber\<close>\<close>

definition doc_page :: "document \<Rightarrow> page_value option" where
  "doc_page doc =
     (if truthy_page (page (metadata doc)) then page (metadata doc)
      else pageNumber (metadata doc))"

text \<open>\<^verbatim>\<open>page ? `${source} (halaman ${page})` : source\<close>\<close>

definition citationText :: "string \<Rightarrow> page_value option \<Rightarrow> string" where
  "citationText src pg =
     (if truthy_page pg then src @ '' (halaman '' @ show_page pg @ '')'' else src)"

text \<open>
  \<^verbatim>\<open>doc.pageContent?.substring(0, 200) || doc.content?.substring(0, 200) || ""\<close>
\<close>

definition excerpt :: "document \<Rightarrow> string" where
  "excerpt doc =
     (if take 200 (pageContent doc) \<noteq> [] then take 200 (pageContent doc)
      else case content doc of
             Some c \<Rightarrow> if take 200 c \<noteq> [] then take 200 c else []
           | None \<Rightarrow> [])"

text \<open>\<^verbatim>\<open>${doc.pageContent || doc.content}\<close>\<close>

definition block_body :: "document \<Rightarrow> string" where
  "block_body doc =
     (if pageContent doc \<noteq> [] then pageContent doc
      else case content doc of Some c \<Rightarrow> c | None \<Rightarrow> ''undefined'')"

text \<open>
  The callback of \<^verbatim>\<open>docs.map((doc, idx) => ...)\<close>, run over the documents from
  index \<open>idx\<close> on. It pushes onto \<^verbatim>\<open>citations\<close> when that is an array
  (\<^term>\<open>None\<close> when it is not) and returns the formatted chunks.
\<close>

fun format_docs_map ::
  "nat \<Rightarrow> document list \<Rightarrow> citation list option \<Rightarrow> string list \<times> citation list option" where
  "format_docs_map idx [] citations = ([], citations)"
| "format_docs_map idx (doc # docs) citations =
     (let src = doc_source doc;
          pg = doc_page doc;
          citations' =
            (case citations of
               Some cs \<Rightarrow> Some (cs @ [\<lparr>cite_source = src, cite_page = pg, cite_text = excerpt doc\<rparr>])
             | None \<Rightarrow> None);
          chunk = ''--- Dokumen #'' @ show_nat (idx + 1) @ '': '' @ citationText src pg
                    @ '' ---'' @ [newline] @ block_body doc @ [newline];
          rest = format_docs_map (idx + 1) docs citations'
      in (chunk # fst rest, snd rest))"

definition formatContextFromDocs ::
  "document list \<Rightarrow> citation list option \<Rightarrow> string \<times> citation list option" where
  "formatContextFromDocs docs citations =
     (if length docs = 0 then ([], citations)
      else let r = format_docs_map 0 docs citations
           in (join [newline, newline] (fst r), snd r))"

subsection \<open>ensureReferences\<close>

text \<open>
  \<^verbatim>\<open>/\n\nREFEREN[CS]I:|\n\nSUMBER:|\n\nREFERENCES:/i.test(response)\<close>: the
  flag \<^verbatim>\<open>i\<close> compares letters regardless of case.
\<close>

definition has_references_section :: "string \<Rightarrow> bool" where
  "has_references_section response =
     (let r = map upper_char response
      in str_includes r ([newline, newline] @ ''REFERENSI:'')
         \<or> str_includes r ([newline, newline] @ ''REFERENCI:'')
         \<or> str_includes r ([newline, newline] @ ''SUMBER:'')
         \<or> str_includes r ([newline, newline] @ ''REFERENCES:''))"

text \<open>
  \<^verbatim>\<open>citation.source + (citation.page ? ` (halaman ${citation.page})` : '')\<close>
\<close>

definition sourceKey :: "citation \<Rightarrow> string" where
  "sourceKey citation =
     cite_source citation
       @ (if truthy_page (cite_page citation)
          then '' (halaman '' @ show_page (cite_page citation) @ '')'' else [])"

definition reference_line :: "nat \<Rightarrow> string \<Rightarrow> string" where
  "reference_line idx key = ''['' @ show_nat (idx + 1) @ ''] '' @ key"

text \<open>The \<^verbatim>\<open>citations.forEach((citation, idx) => ...)\<close> over \<^verbatim>\<open>uniqueSources\<close>.\<close>

fun references_forEach :: "nat \<Rightarrow> citation list \<Rightarrow> js_object \<Rightarrow> js_object" where
  "references_forEach idx [] uniqueSources = uniqueSources"
| "references_forEach idx (citation # rest) uniqueSources =
     (if \<not> obj_truthy uniqueSources (sourceKey citation)
      then references_forEach (idx + 1) rest
             (obj_set uniqueSources (sourceKey citation) (reference_line idx (sourceKey citation)))
      else references_forEach (idx + 1) rest uniqueSources)"

text \<open>The response is \<^term>\<open>None\<close> when it is \<^verbatim>\<open>null\<close> or \<^verbatim>\<open>undefined\<close>.\<close>

definition ensureReferences :: "string option \<Rightarrow> citation list \<Rightarrow> string" where
  "ensureReferences response citations =
     (case response of
        None \<Rightarrow> []
      | Some r \<Rightarrow>
          if r = [] then []
          else if has_references_section r then r
          else if length citations > 0
          then r @ [newline, newline] @ ''REFERENSI:'' @ [newline]
                 @ join [newline] (object_values (references_forEach 0 citations []))
          else r)"

subsection \<open>retryWithAdvancedBackoff\<close>

text \<open>
  A thrown \<^verbatim>\<open>Error\<close> as the retry wrapper reads it: \<^verbatim>\<open>error.status\<close>,
  \<^verbatim>\<open>error.response.status\<close> (\<^term>\<open>None\<close> when either part is missing) and
  \<^verbatim>\<open>error.message\<close>.
\<close>

record js_error =
  status :: "nat option"
  response_status :: "nat option"
  message :: "string option"

text \<open>\<^verbatim>\<open>new Error(msg)\<close>\<close>

definition Error :: "string \<Rightarrow> js_error" where
  "Error msg = \<lparr>status = None, response_status = None, message = Some msg\<rparr>"

record retry_options =
  maxRetries :: nat
  initialDelay :: real
  maxDelay :: real
  retryStatusCodes :: "nat list"

text \<open>The defaults of the destructuring \<^verbatim>\<open>const {...} = options\<close>.\<close>

definition default_retry_options :: retry_options where
  "default_retry_options =
     \<lparr>maxRetries = 5, initialDelay = 1000, maxDelay = 10000,
      retryStatusCodes = [429, 500, 502, 503, 504]\<rparr>"

text \<open>
  The chain of conditions that sets \<^verbatim>\<open>shouldRetry\<close>. A number is true in a
  condition when it is not 0, a string when it is not empty.
\<close>

definition shouldRetry :: "nat list \<Rightarrow> js_error \<Rightarrow> bool" where
  "shouldRetry codes error =
     (if (case status error of Some s \<Rightarrow> s \<noteq> 0 \<and> s \<in> set codes | None \<Rightarrow> False) then True
      else if (case response_status error of Some s \<Rightarrow> s \<noteq> 0 \<and> s \<in> set codes | None \<Rightarrow> False)
      then True
      else if (case message error of
                 Some m \<Rightarrow> m \<noteq> [] \<and> list_ex (\<lambda>code. str_includes m (show_nat code)) codes
               | None \<Rightarrow> False)
      then True
      else if (case message error of
                 Some m \<Rightarrow> m \<noteq> [] \<and> str_includes m ''failed to fetch''
               | None \<Rightarrow> False)
      then True
      else if (case message error of
                 Some m \<Rightarrow> m \<noteq> []
                   \<and> (str_includes (toLowerCase m) ''service unavailable''
                      \<or> str_includes (toLowerCase m) ''resource exhausted''
                      \<or> str_includes (toLowerCase m) ''deadline exceeded'')
               | None \<Rightarrow> False)
      then True
      else False)"

text \<open>
  \<^verbatim>\<open>Math.min(maxDelay, initialDelay * Math.pow(2, attempt))\<close> and the delay with
  jitter, \<^verbatim>\<open>exponentialDelay * (0.8 + Math.random() * 0.4)\<close>. Delays are real
  numbers of milliseconds; \<open>random attempt\<close> is the value \<^verbatim>\<open>Math.random()\<close> returns
  in that attempt.
\<close>

definition exponentialDelay :: "retry_options \<Rightarrow> nat \<Rightarrow> real" where
  "exponentialDelay opts attempt = min (maxDelay opts) (initialDelay opts * 2 ^ attempt)"

definition jitter :: "retry_options \<Rightarrow> (nat \<Rightarrow> real) \<Rightarrow> nat \<Rightarrow> real" where
  "jitter opts random attempt = exponentialDelay opts attempt * (0.8 + random attempt * 0.4)"

text \<open>
  A run of the wrapper: how the promise settles (\<^term>\<open>Inl None\<close> is a rejection with
  \<^verbatim>\<open>undefined\<close>, the initial value of \<^verbatim>\<open>lastError\<close>), how often the operation was
  invoked and the delays waited, in order.
\<close>

record 'a retry_run =
  outcome :: "js_error option + 'a"
  invocations :: nat
  delays :: "real list"

text \<open>
  The \<^verbatim>\<open>for\<close> loop. \<open>fn k\<close> is what the \<open>k\<close>-th invocation of the operation
  does (counted from 0): it throws an error or returns a value. The operation is invoked
  once per attempt.
\<close>

function retry_loop ::
  "(nat \<Rightarrow> js_error + 'a) \<Rightarrow> retry_options \<Rightarrow> (nat \<Rightarrow> real) \<Rightarrow> nat \<Rightarrow> js_error option
     \<Rightarrow> real list \<Rightarrow> 'a retry_run" where
  "retry_loop fn opts random attempt lastError waited =
     (if attempt < maxRetries opts
      then (case fn attempt of
              Inr v \<Rightarrow> \<lparr>outcome = Inr v, invocations = attempt + 1, delays = waited\<rparr>
            | Inl error \<Rightarrow>
                if \<not> shouldRetry (retryStatusCodes opts) error
                then \<lparr>outcome = Inl (Some error), invocations = attempt + 1, delays = waited\<rparr>
                else retry_loop fn opts random (attempt + 1) (Some error)
                       (waited @ [jitter opts random attempt]))
      else \<lparr>outcome = Inl lastError, invocations = attempt, delays = waited\<rparr>)"
  by pat_completeness auto
termination
  by (relation "measure (\<lambda>(fn, opts, random, attempt, lastError, waited). maxRetries opts - attempt)")
    auto

declare retry_loop.simps [simp del]

definition retryWithAdvancedBackoff ::
  "(nat \<Rightarrow> js_error + 'a) \<Rightarrow> retry_options \<Rightarrow> (nat \<Rightarrow> real) \<Rightarrow> 'a retry_run" where
  "retryWithAdvancedBackoff fn opts random = retry_loop fn opts random 0 None []"

subsection \<open>Embedding vectors in the chunk store\<close>

text \<open>
  A component of an embedding as the checks \<^verbatim>\<open>typeof val !== 'number'\<close>,
  \<^verbatim>\<open>isNaN(val)\<close> and \<^verbatim>\<open>!isFinite(val)\<close> see it: a finite number, one of the
  three non-finite numbers, or a value that is not a number.
\<close>

datatype jsval = JNumber real | JNaN | JInfinity | JNegInfinity | JOther

text \<open>
  An embedding argument: \<^term>\<open>Missing\<close> is any value that is false in a condition
  (\<^verbatim>\<open>null\<close>, \<^verbatim>\<open>undefined\<close>), \<^term>\<open>JArray\<close> an array with its elements and
  \<^term>\<open>JObject\<close> any other value, with the list \<^verbatim>\<open>Object.values\<close> gives for it.
  Arrays are dense: every index below the length holds an element.
\<close>

datatype embedding = Missing | JArray "jsval list" | JObject "jsval list"

definition EXPECTED_DIMENSIONS :: nat where
  "EXPECTED_DIMENSIONS = 1536"

text \<open>\<^verbatim>\<open>new Array(1536).fill(0)\<close>\<close>

definition zero_vector :: "jsval list" where
  "zero_vector = replicate 1536 (JNumber 0)"

definition invalid_value :: "jsval \<Rightarrow> bool" where
  "invalid_value val = (case val of JNumber x \<Rightarrow> False | _ \<Rightarrow> True)"

text \<open>\<^verbatim>\<open>embArray.some(val => typeof val !== 'number' || isNaN(val) || !isFinite(val))\<close>\<close>

definition hasInvalidValues :: "jsval list \<Rightarrow> bool" where
  "hasInvalidValues embArray = list_ex invalid_value embArray"

text \<open>\<^verbatim>\<open>while (padded.length < EXPECTED_DIMENSIONS) padded.push(0)\<close>\<close>

function pad_loop :: "jsval list \<Rightarrow> jsval list" where
  "pad_loop padded =
     (if length padded < EXPECTED_DIMENSIONS then pad_loop (padded @ [JNumber 0]) else padded)"
  by pat_completeness auto
termination
  by (relation "measure (\<lambda>padded. EXPECTED_DIMENSIONS - length padded)") auto

declare pad_loop.simps [simp del]

text \<open>
  The callback of \<^verbatim>\<open>embeddings.map\<close> in \<^verbatim>\<open>storeDocumentChunks\<close>:
  first the part that works on \<^verbatim>\<open>embArray\<close>, then the whole callback.
\<close>

definition adjust_embArray :: "jsval list \<Rightarrow> jsval list" where
  "adjust_embArray embArray =
     (if hasInvalidValues embArray then replicate EXPECTED_DIMENSIONS (JNumber 0)
      else if length embArray = EXPECTED_DIMENSIONS then embArray
      else if length embArray > EXPECTED_DIMENSIONS then take EXPECTED_DIMENSIONS embArray
      else pad_loop embArray)"

definition processEmbedding :: "embedding \<Rightarrow> jsval list" where
  "processEmbedding embedding =
     (case embedding of
        Missing \<Rightarrow> replicate EXPECTED_DIMENSIONS (JNumber 0)
      | JArray a \<Rightarrow> adjust_embArray a
      | JObject vals \<Rightarrow> adjust_embArray vals)"

text \<open>
  The repair of an embeddings argument that is missing (\<^term>\<open>None\<close>) or whose length
  differs from the number of chunks:
  \<^verbatim>\<open>new Array(chunks.length).fill(null).map((_, i) => validEmbeddings[i] || zeros)\<close>.
\<close>

definition align_embeddings :: "nat \<Rightarrow> embedding list option \<Rightarrow> embedding list" where
  "align_embeddings n embeddings =
     (case embeddings of
        None \<Rightarrow> map (\<lambda>i. JArray zero_vector) [0..<n]
      | Some es \<Rightarrow>
          if length es \<noteq> n
          then map (\<lambda>i. if i < length es \<and> es ! i \<noteq> Missing then es ! i else JArray zero_vector)
                 [0..<n]
          else es)"

text \<open>
  A row of \<^verbatim>\<open>upsertData\<close>. The sanitised content and metadata of the chunk are not
  modelled; \<open>row_chunk\<close> is the chunk the row was built from.
\<close>

record 'c upsert_row =
  document_id :: string
  user_id :: string
  chunk_index :: nat
  row_chunk :: 'c
  row_embedding :: "jsval list"

text \<open>
  \<^verbatim>\<open>storeDocumentChunks\<close> up to the rows it hands to the database
  (\<^verbatim>\<open>upsert\<close>, in batches of 100). The first argument is the result of
  \<^verbatim>\<open>getCurrentUserId()\<close>.
\<close>

definition storeDocumentChunks ::
  "string option \<Rightarrow> string \<Rightarrow> 'c list \<Rightarrow> embedding list option \<Rightarrow> js_error + 'c upsert_row list" where
  "storeDocumentChunks userId documentId chunks embeddings =
     (case userId of
        None \<Rightarrow> Inl (Error ''User not logged in'')
      | Some uid \<Rightarrow>
          if length chunks = 0 then Inr []
          else let processedEmbeddings =
                     map processEmbedding (align_embeddings (length chunks) embeddings)
               in Inr (map (\<lambda>index. \<lparr>document_id = documentId, user_id = uid,
                                       chunk_index = index, row_chunk = chunks ! index,
                                       row_embedding = processedEmbeddings ! index\<rparr>)
                         [0..<length chunks]))"

text \<open>
  The validation and adjustment of the query embedding at the head of
  \<^verbatim>\<open>performVectorSearch\<close>.
\<close>

definition processQueryEmbedding :: "embedding \<Rightarrow> js_error + jsval list" where
  "processQueryEmbedding queryEmbedding =
     (case queryEmbedding of
        JArray q \<Rightarrow>
          (let processedEmbedding =
                 (if length q \<noteq> EXPECTED_DIMENSIONS
                  then (if length q > EXPECTED_DIMENSIONS then take EXPECTED_DIMENSIONS q
                        else pad_loop q)
                  else q)
           in if hasInvalidValues processedEmbedding
              then Inl (Error ''Embedding vector contains invalid values'')
              else Inr processedEmbedding)
      | _ \<Rightarrow> Inl (Error ''Query embedding must be a non-empty array of numbers''))"

text \<open>
  The persistent tier: the \<^verbatim>\<open>match_documents\<close> procedure, the direct
  \<^verbatim>\<open>query_sql\<close> with the cosine distance, and the keyword search that
  \<^verbatim>\<open>performTextSearch\<close> runs on the text made from the unadjusted query embedding.
\<close>

record 'r vector_backend =
  match_documents :: "jsval list \<Rightarrow> js_error + 'r list"
  query_sql :: "jsval list \<Rightarrow> js_error + 'r list"
  text_search :: "jsval list \<Rightarrow> 'r list"

text \<open>The nested \<^verbatim>\<open>try\<close> blocks of \<^verbatim>\<open>performVectorSearch\<close>.\<close>

definition run_vector_search :: "'r vector_backend \<Rightarrow> jsval list \<Rightarrow> jsval list \<Rightarrow> 'r list" where
  "run_vector_search backend processedEmbedding queryEmbedding =
     (case match_documents backend processedEmbedding of
        Inr data \<Rightarrow> data
      | Inl rpcError \<Rightarrow>
          (case query_sql backend processedEmbedding of
             Inr data \<Rightarrow> data
           | Inl vectorSearchError \<Rightarrow> text_search backend queryEmbedding))"

definition performVectorSearch ::
  "string option \<Rightarrow> 'r vector_backend \<Rightarrow> embedding \<Rightarrow> js_error + 'r list" where
  "performVectorSearch userId backend queryEmbedding =
     (case userId of
        None \<Rightarrow> Inl (Error ''User not logged in'')
      | Some uid \<Rightarrow>
          (case processQueryEmbedding queryEmbedding of
             Inl error \<Rightarrow> Inl error
           | Inr processedEmbedding \<Rightarrow>
               Inr (run_vector_search backend processedEmbedding
                      (case queryEmbedding of JArray q \<Rightarrow> q | _ \<Rightarrow> []))))"

subsection \<open>processDocumentChunksInBatches\<close>

text \<open>
  Chunks are objects, and \<^verbatim>\<open>enhancedDocs.indexOf(doc)\<close> compares them by identity. A
  chunk is therefore modelled by its address (a number); \<^verbatim>\<open>enhancedDocs\<close> and the
  queue are lists of addresses, and \<open>pageContentOf\<close> reads the text of the object at an
  address.

  \<open>embedQuery doc text k\<close> is what the \<open>k\<close>-th call
  \<^verbatim>\<open>embeddings.embedQuery(doc.pageContent)\<close> made for the chunk at \<open>doc\<close> does: it
  throws or it returns an embedding. \<open>random_of doc k\<close> is the value of
  \<^verbatim>\<open>Math.random()\<close> for the jitter after that call. The waits between batches do not
  change the result and are not modelled.
\<close>

record embedder =
  pageContentOf :: "nat \<Rightarrow> string"
  embedQuery :: "nat \<Rightarrow> string \<Rightarrow> nat \<Rightarrow> js_error + embedding"
  random_of :: "nat \<Rightarrow> nat \<Rightarrow> real"

record batch_config =
  initialBatchSize :: nat
  minBatchSize :: nat
  retryDelayMs :: nat

definition default_batch_config :: batch_config where
  "default_batch_config = \<lparr>initialBatchSize = 10, minBatchSize = 2, retryDelayMs = 1000\<rparr>"

definition batch_retry_options :: retry_options where
  "batch_retry_options =
     \<lparr>maxRetries = 5, initialDelay = 1000, maxDelay = 12000,
      retryStatusCodes = [429, 500, 502, 503, 504]\<rparr>"

text \<open>\<^verbatim>\<open>xs.indexOf(x)\<close>: the first index that holds \<open>x\<close>, or -1.\<close>

fun indexOf_from :: "nat \<Rightarrow> 'a list \<Rightarrow> 'a \<Rightarrow> int" where
  "indexOf_from i [] x = - 1"
| "indexOf_from i (y # ys) x = (if y = x then int i else indexOf_from (i + 1) ys x)"

definition indexOf :: "'a list \<Rightarrow> 'a \<Rightarrow> int" where
  "indexOf xs x = indexOf_from 0 xs x"

text \<open>
  The operation given to the retry wrapper,
  \<^verbatim>\<open>async () => ({index: enhancedDocs.indexOf(doc), embedding: await embedQuery(...)})\<close>,
  and the wrapper with its \<^verbatim>\<open>.catch\<close>, which turns a rejection into the zero vector.
\<close>

definition embed_operation ::
  "embedder \<Rightarrow> nat list \<Rightarrow> nat \<Rightarrow> nat \<Rightarrow> js_error + (int \<times> embedding)" where
  "embed_operation env enhancedDocs doc k =
     (case embedQuery env doc (pageContentOf env doc) k of
        Inl error \<Rightarrow> Inl error
      | Inr e \<Rightarrow> Inr (indexOf enhancedDocs doc, e))"

definition embed_with_fallback :: "embedder \<Rightarrow> nat list \<Rightarrow> nat \<Rightarrow> int \<times> embedding" where
  "embed_with_fallback env enhancedDocs doc =
     (case outcome (retryWithAdvancedBackoff (embed_operation env enhancedDocs doc)
                      batch_retry_options (random_of env doc)) of
        Inr r \<Rightarrow> r
      | Inl err \<Rightarrow> (indexOf enhancedDocs doc, JArray zero_vector))"

text \<open>\<^verbatim>\<open>Promise.all\<close>: all the values, or a rejection.\<close>

fun promise_all :: "(js_error + 'a) list \<Rightarrow> js_error + 'a list" where
  "promise_all [] = Inr []"
| "promise_all (p # ps) =
     (case p of
        Inl error \<Rightarrow> Inl error
      | Inr v \<Rightarrow> (case promise_all ps of Inl error \<Rightarrow> Inl error | Inr vs \<Rightarrow> Inr (v # vs)))"

record batch_state =
  currentBatchSize :: nat
  consecutiveFailures :: nat
  consecutiveSuccesses :: nat
  queue :: "nat list"
  results :: "int \<rightharpoonup> embedding"

text \<open>The adjustment of the batch size at the head of the \<^verbatim>\<open>while\<close> body.\<close>

definition adjust_batch_size :: "batch_config \<Rightarrow> batch_state \<Rightarrow> batch_state" where
  "adjust_batch_size config st =
     (if consecutiveFailures st > 0
      then st\<lparr>currentBatchSize := max (minBatchSize config) (currentBatchSize st div 2),
              consecutiveFailures := 0\<rparr>
      else if consecutiveSuccesses st \<ge> 3
      then st\<lparr>currentBatchSize := min (initialBatchSize config) (currentBatchSize st + 1),
              consecutiveSuccesses := 0\<rparr>
      else st)"

text \<open>
  The \<^verbatim>\<open>try\<close>/\<^verbatim>\<open>catch\<close> around the batch, given how \<^verbatim>\<open>Promise.all\<close> settled:
  on success the results are stored, on failure the batch goes back to the end of the
  queue. \<open>st\<close> is the state after the batch was taken from the queue.
\<close>

definition settle_batch ::
  "batch_config \<Rightarrow> batch_state \<Rightarrow> nat list \<Rightarrow> js_error + (int \<times> embedding) list \<Rightarrow> batch_state" where
  "settle_batch config st batch settled =
     (case settled of
        Inr batchEmbeddings \<Rightarrow>
          st\<lparr>results := fold (\<lambda>(index, embedding) m. m(index \<mapsto> embedding))
                            batchEmbeddings (results st),
             consecutiveSuccesses := consecutiveSuccesses st + 1,
             consecutiveFailures := 0\<rparr>
      | Inl error \<Rightarrow>
          (if consecutiveFailures st + 1 \<ge> 3
           then st\<lparr>consecutiveFailures := consecutiveFailures st + 1,
                   queue := queue st @ batch,
                   currentBatchSize := minBatchSize config\<rparr>
           else st\<lparr>consecutiveFailures := consecutiveFailures st + 1,
                   queue := queue st @ batch\<rparr>))"

text \<open>One run of the \<^verbatim>\<open>while\<close> body.\<close>

definition batch_iteration :: "embedder \<Rightarrow> batch_config \<Rightarrow> nat list \<Rightarrow> batch_state \<Rightarrow> batch_state" where
  "batch_iteration env config enhancedDocs st =
     (let st1 = adjust_batch_size config st;
          batchSize = min (currentBatchSize st1) (length (queue st1));
          batch = take batchSize (queue st1);
          st2 = st1\<lparr>queue := drop batchSize (queue st1)\<rparr>
      in settle_batch config st2 batch
           (promise_all (map (\<lambda>doc. Inr (embed_with_fallback env enhancedDocs doc)) batch)))"

text \<open>
  \<^verbatim>\<open>while (queue.length > 0) { ... }\<close>. The loop need not end (a batch size of 0
  takes nothing from the queue), so its result is optional: \<^term>\<open>None\<close> when it runs
  forever.
\<close>

partial_function (option) batch_loop ::
  "embedder \<Rightarrow> batch_config \<Rightarrow> nat list \<Rightarrow> batch_state \<Rightarrow> batch_state option" where
  "batch_loop env config enhancedDocs st =
     (if length (queue st) > 0
      then batch_loop env config enhancedDocs (batch_iteration env config enhancedDocs st)
      else Some st)"

definition processDocumentChunksInBatches ::
  "embedder \<Rightarrow> batch_config \<Rightarrow> nat list \<Rightarrow> embedding list option" where
  "processDocumentChunksInBatches env config enhancedDocs =
     (case batch_loop env config enhancedDocs
             \<lparr>currentBatchSize = initialBatchSize config, consecutiveFailures = 0,
              consecutiveSuccesses = 0, queue = enhancedDocs, results = Map.empty\<rparr> of
        None \<Rightarrow> None
      | Some st \<Rightarrow>
          Some (map (\<lambda>index. case results st (int index) of
                                Some e \<Rightarrow> if e = Missing then JArray zero_vector else e
                              | None \<Rightarrow> JArray zero_vector)
                  [0..<length enhancedDocs]))"

subsection \<open>Retrieval: getRelevantDocsFromMemory and getRelevantDocsFromDatabase\<close>

text \<open>
  The calls a query makes to its collaborators, in the order they are made: a similarity
  search of the in-memory store (query text and \<open>k\<close>), a maximal-marginal-relevance
  search (query text, \<open>k\<close>, \<open>fetchK\<close>), a call of the embedding provider (the text
  embedded), a vector search of the persistent tier, the keyword search that replaces it
  when no embedding is available, and a call of the language model (the prompt).
\<close>

datatype event =
    SimilaritySearch string nat
  | MMRSearch "string option" nat nat
  | EmbedQueryCall string
  | VectorSearch
  | FallbackSearch string
  | LLMCall string

text \<open>
  The in-memory store behind \<^verbatim>\<open>vectorStore\<close>: what
  \<^verbatim>\<open>retriever.getRelevantDocuments(variation)\<close> (a retriever with the given \<open>k\<close>) and
  \<^verbatim>\<open>vectorStore.maximalMarginalRelevance(query, {k, fetchK})\<close> return or throw.
\<close>

record vector_store =
  similaritySearch :: "string \<Rightarrow> nat \<Rightarrow> js_error + document list"
  maximalMarginalRelevance :: "string option \<Rightarrow> nat \<Rightarrow> nat \<Rightarrow> js_error + document list"

text \<open>
  The \<^verbatim>\<open>for (const variation of queryVariations)\<close> loop of
  \<^verbatim>\<open>getRelevantDocsFromMemory\<close>, with the documents accumulated so far and the calls
  made so far.
\<close>

fun variations_loop ::
  "vector_store \<Rightarrow> string list \<Rightarrow> document list \<Rightarrow> event list \<Rightarrow> document list \<times> event list" where
  "variations_loop store [] allRelevantDocs trace = (allRelevantDocs, trace)"
| "variations_loop store (variation # rest) allRelevantDocs trace =
     (case similaritySearch store variation 7 of
        Inr relevantDocs \<Rightarrow>
          if length relevantDocs > 0
          then if length (allRelevantDocs @ relevantDocs) \<ge> 5
               then (allRelevantDocs @ relevantDocs, trace @ [SimilaritySearch variation 7])
               else variations_loop store rest (allRelevantDocs @ relevantDocs)
                      (trace @ [SimilaritySearch variation 7])
          else variations_loop store rest allRelevantDocs (trace @ [SimilaritySearch variation 7])
      | Inl err \<Rightarrow>
          variations_loop store rest allRelevantDocs (trace @ [SimilaritySearch variation 7]))"

text \<open>\<^verbatim>\<open>queryVariations[0]\<close>, \<^term>\<open>None\<close> for \<^verbatim>\<open>undefined\<close>.\<close>

definition first_variation :: "string list \<Rightarrow> string option" where
  "first_variation queryVariations = (case queryVariations of [] \<Rightarrow> None | v # rest \<Rightarrow> Some v)"

definition getRelevantDocsFromMemory ::
  "vector_store option \<Rightarrow> string list \<Rightarrow> document list \<times> event list" where
  "getRelevantDocsFromMemory vectorStore queryVariations =
     (case vectorStore of
        None \<Rightarrow> ([], [])
      | Some store \<Rightarrow>
          (case variations_loop store queryVariations [] [] of
             (allRelevantDocs, trace) \<Rightarrow>
               if length allRelevantDocs = 0
               then (case maximalMarginalRelevance store (first_variation queryVariations) 5 20 of
                       Inr mmrResults \<Rightarrow>
                         (deduplicateDocuments
                            (if length mmrResults > 0 then allRelevantDocs @ mmrResults
                             else allRelevantDocs),
                          trace @ [MMRSearch (first_variation queryVariations) 5 20])
                     | Inl err \<Rightarrow>
                         (deduplicateDocuments allRelevantDocs,
                          trace @ [MMRSearch (first_variation queryVariations) 5 20]))
               else (deduplicateDocuments allRelevantDocs, trace)))"

text \<open>
  What the retrieval-and-generation code reads from its surroundings. The module state:
  \<^verbatim>\<open>vectorStore\<close> (\<^term>\<open>None\<close> when no documents have been processed) and
  \<^verbatim>\<open>embeddings\<close> (\<^term>\<open>None\<close> when not initialised, otherwise what
  \<^verbatim>\<open>embeddings.embedQuery\<close> does). The collaborators: the embedding provider created
  from the API key (\<open>k\<close>-th call for a text), the persistent tier with the signed-in
  user, the conversion of its rows to documents, the keyword search, the language model,
  and the helpers of the prompt that are not modelled further
  (\<^verbatim>\<open>generateQueryVariations\<close>, the test for a mathematical query,
  \<^verbatim>\<open>buildSystemPrompt\<close>, \<^verbatim>\<open>addMathInstructions\<close>,
  \<^verbatim>\<open>extractThinkingProcess\<close>).
\<close>

record 'r rag_env =
  rag_vectorStore :: "vector_store option"
  rag_embeddings :: "(string \<Rightarrow> js_error + embedding) option"
  keyEmbedQuery :: "string \<Rightarrow> nat \<Rightarrow> js_error + embedding"
  backoffRandom :: "nat \<Rightarrow> real"
  currentUserId :: "string option"
  chunkStore :: "'r vector_backend"
  rowsToDocuments :: "'r list \<Rightarrow> document list"
  fallbackNonVectorSearch :: "string \<Rightarrow> document list"
  generateContent :: "string \<Rightarrow> history_entry list \<Rightarrow> js_error + string"
  isMathQuery :: "string \<Rightarrow> bool"
  generateQueryVariations :: "string \<Rightarrow> bool \<Rightarrow> string list"
  buildSystemPrompt :: "bool \<Rightarrow> string"
  addMathInstructions :: string
  extractThinkingProcess :: "string \<Rightarrow> string option \<times> string option"

definition query_retry_options :: retry_options where
  "query_retry_options =
     \<lparr>maxRetries = 6, initialDelay = 1000, maxDelay = 15000,
      retryStatusCodes = [429, 500, 502, 503, 504]\<rparr>"

text \<open>
  The part of \<^verbatim>\<open>getRelevantDocsFromDatabase\<close> after the query embedding is known:
  the vector search and the conversion of its rows. An error of
  \<^verbatim>\<open>performVectorSearch\<close> is caught by the outer \<^verbatim>\<open>catch\<close>, which returns no
  documents.
\<close>

definition search_database :: "'r rag_env \<Rightarrow> embedding \<Rightarrow> document list" where
  "search_database env queryEmbedding =
     (case performVectorSearch (currentUserId env) (chunkStore env) queryEmbedding of
        Inl error \<Rightarrow> []
      | Inr found \<Rightarrow> if length found = 0 then [] else rowsToDocuments env found)"

text \<open>
  \<^verbatim>\<open>getRelevantDocsFromDatabase(query, apiKey)\<close>. An API key is \<^term>\<open>None\<close> when
  it is missing or empty.
\<close>

definition getRelevantDocsFromDatabase ::
  "'r rag_env \<Rightarrow> string \<Rightarrow> string option \<Rightarrow> document list \<times> event list" where
  "getRelevantDocsFromDatabase env query apiKey =
     (case apiKey of
        Some key \<Rightarrow>
          (let run = retryWithAdvancedBackoff (keyEmbedQuery env query) query_retry_options
                       (backoffRandom env);
               calls = replicate (invocations run) (EmbedQueryCall query)
           in case outcome run of
                Inl embeddingError \<Rightarrow>
                  (fallbackNonVectorSearch env query, calls @ [FallbackSearch query])
              | Inr queryEmbedding \<Rightarrow>
                  (search_database env queryEmbedding, calls @ [VectorSearch]))
      | None \<Rightarrow>
          (case rag_embeddings env of
             Some embedQuery' \<Rightarrow>
               (case embedQuery' query of
                  Inl embErr \<Rightarrow>
                    (fallbackNonVectorSearch env query,
                     [EmbedQueryCall query, FallbackSearch query])
                | Inr queryEmbedding \<Rightarrow>
                    (search_database env queryEmbedding, [EmbedQueryCall query, VectorSearch]))
           | None \<Rightarrow> (fallbackNonVectorSearch env query, [FallbackSearch query])))"

subsection \<open>queryWithRAG\<close>

text \<open>
  The retrieval steps of \<^verbatim>\<open>queryWithRAG\<close>: the query variations, the in-memory
  search, and the supplement from the database when fewer than 3 documents were found.
  Neither retrieval function lets an error escape, so the two \<^verbatim>\<open>catch\<close> blocks
  around them have nothing to catch.
\<close>

definition retrieveRelevantDocs ::
  "'r rag_env \<Rightarrow> string \<Rightarrow> string option \<Rightarrow> document list \<times> event list" where
  "retrieveRelevantDocs env query apiKey =
     (let queryVariations = generateQueryVariations env query (isMathQuery env query);
          fromMemory = getRelevantDocsFromMemory (rag_vectorStore env) queryVariations
      in if length (fst fromMemory) < 3
         then (let fromDatabase = getRelevantDocsFromDatabase env query apiKey
               in (deduplicateDocuments (fst fromMemory @ fst fromDatabase),
                   snd fromMemory @ snd fromDatabase))
         else fromMemory)"

definition no_documents_message :: string where
  "no_documents_message =
     ''Tidak ada dokumen yang diproses. Silakan unggah minimal 1 file PDF terlebih dahulu.''"

definition no_relevant_information_message :: string where
  "no_relevant_information_message =
     ''Tidak dapat menemukan informasi yang relevan dalam dokumen yang diunggah. ''
     @ ''Silakan coba pertanyaan lain atau unggah dokumen yang sesuai.''"

definition reference_instructions :: string where
  "reference_instructions =
     [newline, newline]
     @ ''Selalu akhiri respons Anda dengan bagian REFERENSI yang menyebutkan dokumen asal ''
     @ ''dan halaman (jika ada). Format referensi harus seperti ini:''
     @ [newline, newline] @ ''REFERENSI:'' @ [newline] @ ''[1] Nama File A (halaman X)''
     @ [newline] @ ''[2] Nama File B (halaman Y)''"

text \<open>\<^verbatim>\<open>error.message\<close> in a template or concatenation.\<close>

definition message_text :: "js_error \<Rightarrow> string" where
  "message_text error = (case message error of Some m \<Rightarrow> m | None \<Rightarrow> ''undefined'')"

text \<open>
  \<^verbatim>\<open>generateResponseFromGemini\<close>: the call of the model, whose error is wrapped.
\<close>

definition generateResponseFromGemini ::
  "'r rag_env \<Rightarrow> string \<Rightarrow> history_entry list \<Rightarrow> js_error + string" where
  "generateResponseFromGemini env prompt chatHistory =
     (case generateContent env prompt chatHistory of
        Inr responseText \<Rightarrow> Inr responseText
      | Inl error \<Rightarrow>
          Inl (Error (''Failed to generate response: ''
                        @ (case message error of
                             Some m \<Rightarrow> if m \<noteq> [] then m else ''Unknown error''
                           | None \<Rightarrow> ''Unknown error''))))"

record query_result =
  answer_text :: string
  thinkingProcess :: "string option"
  answer_citations :: "citation list"

text \<open>
  The body of the \<^verbatim>\<open>try\<close> block of \<^verbatim>\<open>queryWithRAG\<close>: its result or the error
  it throws, and the calls it made. The update of the session's access time before the
  check of the store, the generation parameters and the metrics recorded in the
  \<^verbatim>\<open>finally\<close> block touch neither the result nor these calls and are left out.
\<close>

definition queryWithRAG_try ::
  "'r rag_env \<Rightarrow> string \<Rightarrow> string option \<Rightarrow> chat_message list option
     \<Rightarrow> (js_error + query_result) \<times> event list" where
  "queryWithRAG_try env query apiKey conversationHistory =
     (case rag_vectorStore env of
        None \<Rightarrow> (Inl (Error no_documents_message), [])
      | Some store \<Rightarrow>
          (case retrieveRelevantDocs env query apiKey of
             (relevantDocs, trace) \<Rightarrow>
               if length relevantDocs = 0
               then (Inl (Error no_relevant_information_message), trace)
               else
                 (case formatContextFromDocs relevantDocs (Some []) of
                    (context, citations) \<Rightarrow>
                      (let chatHistory = formatChatHistory conversationHistory;
                           promptText =
                             buildSystemPrompt env (isMathQuery env query)
                             @ [newline] @ ''Gunakan informasi berikut untuk membantu menjawab: ''
                             @ [newline] @ context @ [newline, newline]
                             @ ''Pertanyaan: '' @ query
                             @ (if isMathQuery env query then addMathInstructions env else [])
                             @ reference_instructions
                       in case generateResponseFromGemini env promptText chatHistory of
                            Inl error \<Rightarrow> (Inl error, trace @ [LLMCall promptText])
                          | Inr responseText \<Rightarrow>
                              (case extractThinkingProcess env responseText of
                                 (finalResponse, thinking) \<Rightarrow>
                                   (Inr \<lparr>answer_text =
                                           ensureReferences finalResponse
                                             (case citations of Some cs \<Rightarrow> cs | None \<Rightarrow> []),
                                         thinkingProcess = thinking,
                                         answer_citations =
                                           (case citations of Some cs \<Rightarrow> cs | None \<Rightarrow> [])\<rparr>,
                                    trace @ [LLMCall promptText]))))))"

text \<open>
  \<^verbatim>\<open>queryWithRAG\<close>: the \<^verbatim>\<open>catch\<close> block rethrows every error as
  \<^verbatim>\<open>new Error('Failed to query: ' + error.message)\<close>.
\<close>

definition queryWithRAG ::
  "'r rag_env \<Rightarrow> string \<Rightarrow> string option \<Rightarrow> chat_message list option
     \<Rightarrow> (js_error + query_result) \<times> event list" where
  "queryWithRAG env query apiKey conversationHistory =
     (case queryWithRAG_try env query apiKey conversationHistory of
        (Inl error, trace) \<Rightarrow> (Inl (Error (''Failed to query: '' @ message_text error)), trace)
      | (Inr result, trace) \<Rightarrow> (Inr result, trace))"

subsection \<open>processEmbeddingsInBatches\<close>

text \<open>
  The older batch function, with a fixed batch size of 3. Each text has its own
  \<^verbatim>\<open>try\<close>/\<^verbatim>\<open>catch\<close> around the retry wrapper, so the \<^verbatim>\<open>catch\<close> around the
  batch has nothing to catch. The chunks are given by their addresses, as above.
\<close>

definition embed_text_or_zero :: "embedder \<Rightarrow> nat \<Rightarrow> embedding" where
  "embed_text_or_zero env chunk =
     (case outcome (retryWithAdvancedBackoff (embedQuery env chunk (pageContentOf env chunk))
                      default_retry_options (random_of env chunk)) of
        Inr e \<Rightarrow> e
      | Inl err \<Rightarrow> JArray zero_vector)"

text \<open>\<^verbatim>\<open>for (let i = 0; i < chunks.length; i += batchSize) { ... }\<close>\<close>

function embeddings_batches_loop ::
  "embedder \<Rightarrow> nat list \<Rightarrow> nat \<Rightarrow> embedding list \<Rightarrow> embedding list" where
  "embeddings_batches_loop env chunks i allEmbeddings =
     (if i < length chunks
      then let batch = take 3 (drop i chunks);
               batchResults = map (embed_text_or_zero env) batch
           in embeddings_batches_loop env chunks (i + 3) (allEmbeddings @ batchResults)
      else allEmbeddings)"
  by pat_completeness auto
termination
  by (relation "measure (\<lambda>(env, chunks, i, allEmbeddings). length chunks - i)") auto

declare embeddings_batches_loop.simps [simp del]

definition processEmbeddingsInBatches :: "embedder \<Rightarrow> nat list \<Rightarrow> embedding list" where
  "processEmbeddingsInBatches env chunks = embeddings_batches_loop env chunks 0 []"

subsection \<open>Example data\<close>

definition ex_doc :: "string \<Rightarrow> document" where
  "ex_doc txt = \<lparr>pageContent = txt, content = None,
     metadata = \<lparr>source = None, document_title = None, page = None, pageNumber = None\<rparr>\<rparr>"

text \<open>Two chunks that agree on their first 100 characters and differ afterwards.\<close>

definition ex_header_a :: document where
  "ex_header_a = ex_doc (replicate 100 (CHR ''h'') @ ''first body'')"

definition ex_header_b :: document where
  "ex_header_b = ex_doc (replicate 100 (CHR ''h'') @ ''second body'')"


definition ex_cite :: "string \<Rightarrow> citation" where
  "ex_cite src = \<lparr>cite_source = src, cite_page = None, cite_text = []\<rparr>"

definition ex_paged_doc :: document where
  "ex_paged_doc = \<lparr>pageContent = ''E = mc^2'', content = None,
     metadata = \<lparr>source = Some ''physics.pdf'', document_title = None,
                 page = Some (PageNum 3), pageNumber = None\<rparr>\<rparr>"

text \<open>
  A chunk whose \<^verbatim>\<open>pageContent\<close>, \<^verbatim>\<open>source\<close> and \<^verbatim>\<open>page\<close> are empty strings,
  so that \<^verbatim>\<open>content\<close>, \<^verbatim>\<open>document_title\<close> and \<^verbatim>\<open>pageNumber\<close> are read.
\<close>

definition ex_titled_doc :: document where
  "ex_titled_doc = \<lparr>pageContent = [], content = Some ''fallback body'',
     metadata = \<lparr>source = Some [], document_title = Some ''Notes'',
                 page = Some (PageStr []), pageNumber = Some (PageNum 12)\<rparr>\<rparr>"

definition ex_bad_request :: js_error where
  "ex_bad_request = \<lparr>status = Some 400, response_status = None, message = Some ''Bad Request''\<rparr>"

definition ex_rate_limited :: js_error where
  "ex_rate_limited = \<lparr>status = Some 429, response_status = None, message = Some ''Too Many Requests''\<rparr>"

text \<open>An operation that fails with HTTP 400 at every invocation, and a constant random source.\<close>

definition ex_always_bad_request :: "nat \<Rightarrow> js_error + nat" where
  "ex_always_bad_request k = Inl ex_bad_request"

definition ex_half :: "nat \<Rightarrow> real" where
  "ex_half k = 1 / 2"

text \<open>
  An error without a status whose message holds the digits 500 inside a larger number, and
  an operation that throws it at every invocation.
\<close>

definition ex_offset_error :: js_error where
  "ex_offset_error = Error ''Invalid chunk at offset 5000''"

definition ex_always_offset_error :: "nat \<Rightarrow> js_error + nat" where
  "ex_always_offset_error k = Inl ex_offset_error"

definition ex_backend :: "nat vector_backend" where
  "ex_backend = \<lparr>match_documents = (\<lambda>v. Inr [length v]),
                  query_sql = (\<lambda>v. Inl (Error ''unavailable'')),
                  text_search = (\<lambda>q. [])\<rparr>"

text \<open>A provider that answers every call with the same one-component vector.\<close>

definition ex_embedder :: embedder where
  "ex_embedder = \<lparr>pageContentOf = (\<lambda>doc. ''text''),
                   embedQuery = (\<lambda>doc text k. Inr (JArray [JNumber 1])),
                   random_of = (\<lambda>doc k. 1 / 2)\<rparr>"

text \<open>
  A provider that is rate-limited three times for chunk 10 before it answers, rejects
  chunk 20 as a bad request, is rate-limited at every call for chunk 40, and answers
  every other chunk at once.
\<close>

definition ex_flaky_embedder :: embedder where
  "ex_flaky_embedder =
     \<lparr>pageContentOf = (\<lambda>doc. ''text''),
      embedQuery = (\<lambda>doc text k.
        if doc = 10 then (if k < 3 then Inl ex_rate_limited else Inr (JArray [JNumber 3]))
        else if doc = 20 then Inl ex_bad_request
        else if doc = 40 then Inl ex_rate_limited
        else Inr (JArray [JNumber 1])),
      random_of = (\<lambda>doc k. 1 / 2)\<rparr>"

text \<open>A store that answers every similarity search with the same three chunks.\<close>

definition ex_store :: vector_store where
  "ex_store = \<lparr>similaritySearch = (\<lambda>q k. Inr [ex_doc ''alpha'', ex_doc ''beta'', ex_doc ''gamma'']),
                maximalMarginalRelevance = (\<lambda>q k fetchK. Inr [])\<rparr>"

text \<open>
  An environment with no processed documents, and one whose store and database find
  nothing; in both the language model would answer.
\<close>

definition ex_env :: "vector_store option \<Rightarrow> nat rag_env" where
  "ex_env store =
     \<lparr>rag_vectorStore = store,
      rag_embeddings = None,
      keyEmbedQuery = (\<lambda>text k. Inr (JArray [JNumber 1])),
      backoffRandom = (\<lambda>k. 1 / 2),
      currentUserId = Some ''user'',
      chunkStore = \<lparr>match_documents = (\<lambda>v. Inr []), query_sql = (\<lambda>v. Inr []),
                     text_search = (\<lambda>q. [])\<rparr>,
      rowsToDocuments = (\<lambda>rows. []),
      fallbackNonVectorSearch = (\<lambda>q. []),
      generateContent = (\<lambda>prompt history. Inr ''an answer''),
      isMathQuery = (\<lambda>q. False),
      generateQueryVariations = (\<lambda>q math. [q, q @ '' formula'']),
      buildSystemPrompt = (\<lambda>math. ''system''),
      addMathInstructions = [],
      extractThinkingProcess = (\<lambda>text. (Some text, None))\<rparr>"

definition ex_empty_store :: vector_store where
  "ex_empty_store = \<lparr>similaritySearch = (\<lambda>q k. Inr []),
                      maximalMarginalRelevance = (\<lambda>q k fetchK. Inr [])\<rparr>"





section \<open>Properties\<close>

subsection \<open>Lists\<close>

text \<open>
  Selecting positions of a list with a head: the positions of the tail, shifted by one.
\<close>

lemma upt_Suc_shift: "[0..<Suc n] = 0 # map Suc [0..<n]"
  by (simp add: upt_conv_Cons map_Suc_upt del: upt_Suc)

lemma shift_filter_map:
  assumes "\<And>i. P' (Suc i) = P i" and "\<And>i. f' (Suc i) = f i"
  shows "map f' (filter P' [0..<Suc n]) = (if P' 0 then [f' 0] else []) @ map f (filter P [0..<n])"
  unfolding upt_Suc_shift by (simp add: filter_map comp_def assms)

subsection \<open>Deduplication\<close>

lemma dedup_forEach_result:
  "\<exists>xs. snd (dedup_forEach docs (m, res)) = res @ xs
      \<and> subseq xs docs
      \<and> distinct (map contentId xs)
      \<and> contentId ` set xs = contentId ` set docs - dom m
      \<and> (\<forall>d \<in> set xs. find (\<lambda>x. contentId x = contentId d) docs = Some d)"
proof (induction docs arbitrary: m res)
  case Nil
  show ?case by simp
next
  case (Cons doc docs)
  show ?case
  proof (cases "m (contentId doc) = None")
    case True
    let ?m = "m(contentId doc \<mapsto> doc)"
    from Cons.IH [of ?m "res @ [doc]"] obtain xs where
      xs: "snd (dedup_forEach docs (?m, res @ [doc])) = (res @ [doc]) @ xs"
        "subseq xs docs" "distinct (map contentId xs)"
        "contentId ` set xs = contentId ` set docs - dom ?m"
        "\<forall>d \<in> set xs. find (\<lambda>x. contentId x = contentId d) docs = Some d"
      by blast
    have notin: "contentId doc \<notin> contentId ` set xs"
      using xs(4) by auto
    have "snd (dedup_forEach (doc # docs) (m, res)) = res @ (doc # xs)"
      using True xs(1) by simp
    moreover have "subseq (doc # xs) (doc # docs)"
      using xs(2) by simp
    moreover have "distinct (map contentId (doc # xs))"
      using xs(3) notin by simp
    moreover have "contentId ` set (doc # xs) = contentId ` set (doc # docs) - dom m"
      using xs(4) True by (auto simp: domIff)
    moreover have "\<forall>d \<in> set (doc # xs).
        find (\<lambda>x. contentId x = contentId d) (doc # docs) = Some d"
      using xs(5) notin by auto
    ultimately show ?thesis by blast
  next
    case False
    from Cons.IH [of m res] obtain xs where
      xs: "snd (dedup_forEach docs (m, res)) = res @ xs"
        "subseq xs docs" "distinct (map contentId xs)"
        "contentId ` set xs = contentId ` set docs - dom m"
        "\<forall>d \<in> set xs. find (\<lambda>x. contentId x = contentId d) docs = Some d"
      by blast
    have indom: "contentId doc \<in> dom m"
      using False by (simp add: domIff)
    have notin: "contentId doc \<notin> contentId ` set xs"
      using xs(4) indom by auto
    have "snd (dedup_forEach (doc # docs) (m, res)) = res @ xs"
      using False xs(1) by auto
    moreover have "subseq xs (doc # docs)"
      using xs(2) by (rule list_emb_Cons)
    moreover have "contentId ` set xs = contentId ` set (doc # docs) - dom m"
      using xs(4) indom by auto
    moreover have "\<forall>d \<in> set xs.
        find (\<lambda>x. contentId x = contentId d) (doc # docs) = Some d"
      using xs(5) notin by auto
    ultimately show ?thesis using xs(3) by blast
  qed
qed

lemma dedup_forEach_distinct_keys:
  "distinct (map contentId xs) \<Longrightarrow> contentId ` set xs \<inter> dom m = {}
     \<Longrightarrow> snd (dedup_forEach xs (m, res)) = res @ xs"
proof (induction xs arbitrary: m res)
  case Nil
  show ?case by simp
next
  case (Cons x xs)
  have fresh: "m (contentId x) = None"
    using Cons.prems(2) by (auto simp: domIff)
  have disj: "contentId ` set xs \<inter> dom (m(contentId x \<mapsto> x)) = {}"
    using Cons.prems by auto
  have dist: "distinct (map contentId xs)"
    using Cons.prems(1) by simp
  have "snd (dedup_forEach (x # xs) (m, res))
      = snd (dedup_forEach xs (m(contentId x \<mapsto> x), res @ [x]))"
    using fresh by simp
  also have "\<dots> = (res @ [x]) @ xs"
    by (rule Cons.IH [OF dist disj])
  finally show ?case by simp
qed


lemma dedup_forEach_first_seen:
  "snd (dedup_forEach docs (m, res))
     = res @ map ((!) docs)
               (filter (\<lambda>i. m (contentId (docs ! i)) = None
                             \<and> (\<forall>j<i. contentId (docs ! j) \<noteq> contentId (docs ! i)))
                  [0..<length docs])"
proof (induction docs arbitrary: m res)
  case Nil
  show ?case by simp
next
  case (Cons doc docs)
  let ?k = "contentId doc"
  let ?f' = "(!) (doc # docs)"
  let ?f = "(!) docs"
  let ?P' = "\<lambda>i. m (contentId ((doc # docs) ! i)) = None
                 \<and> (\<forall>j<i. contentId ((doc # docs) ! j) \<noteq> contentId ((doc # docs) ! i))"
  have f: "?f' (Suc i) = ?f i" for i
    by simp
  show ?case
  proof (cases "m ?k = None")
    case True
    let ?m = "m(?k \<mapsto> doc)"
    let ?P = "\<lambda>i. ?m (contentId (docs ! i)) = None
                 \<and> (\<forall>j<i. contentId (docs ! j) \<noteq> contentId (docs ! i))"
    have P: "?P' (Suc i) = ?P i" for i
      using True by (auto simp: All_less_Suc2)
    have P0: "?P' 0"
      using True by simp
    have "snd (dedup_forEach (doc # docs) (m, res))
        = snd (dedup_forEach docs (?m, res @ [doc]))"
      using True by simp
    also have "\<dots> = (res @ [doc]) @ map ?f (filter ?P [0..<length docs])"
      by (rule Cons.IH)
    also have "\<dots> = res @ map ?f' (filter ?P' [0..<Suc (length docs)])"
      using shift_filter_map [of ?P' ?P ?f' ?f "length docs", OF P f] P0 by simp
    finally show ?thesis by simp
  next
    case False
    let ?P = "\<lambda>i. m (contentId (docs ! i)) = None
                 \<and> (\<forall>j<i. contentId (docs ! j) \<noteq> contentId (docs ! i))"
    have P: "?P' (Suc i) = ?P i" for i
    proof (cases "m (contentId (docs ! i)) = None")
      case True
      with False have "contentId doc \<noteq> contentId (docs ! i)" by metis
      then show ?thesis by (simp add: All_less_Suc2)
    next
      case False
      then show ?thesis by auto
    qed
    have P0: "\<not> ?P' 0"
      using False by simp
    have "snd (dedup_forEach (doc # docs) (m, res)) = snd (dedup_forEach docs (m, res))"
      using False by auto
    also have "\<dots> = res @ map ?f (filter ?P [0..<length docs])"
      by (rule Cons.IH)
    also have "map ?f (filter ?P [0..<length docs]) = map ?f' (filter ?P' [0..<Suc (length docs)])"
      using shift_filter_map [of ?P' ?P ?f' ?f "length docs", OF P f] P0 by simp
    finally show ?thesis by simp
  qed
qed


text \<open>
  Claim C6. \<^verbatim>\<open>deduplicateDocuments\<close> keys a document on the first 100 characters of
  its content and keeps, in input order, exactly the documents at the positions where a key
  occurs for the first time: position \<open>i\<close> is kept if and only if no earlier position has the
  same first 100 characters. In particular the result is a subsequence of the input, holds
  every key of the input exactly once, and each kept document is the first document of the
  input with its key. Deduplicating twice gives the same list as deduplicating once; two
  chunks with the same first 100 characters collapse into the first, whatever follows those
  characters; and a chunk that comes back after a different one keeps its first position.
\<close>

theorem deduplicateDocuments_first_occurrences:
  "deduplicateDocuments docs
     = map ((!) docs)
         (filter (\<lambda>i. \<forall>j<i. take 100 (pageContent (docs ! j)) \<noteq> take 100 (pageContent (docs ! i)))
            [0..<length docs])
   \<and> subseq (deduplicateDocuments docs) docs
   \<and> distinct (map (\<lambda>d. take 100 (pageContent d)) (deduplicateDocuments docs))
   \<and> (\<lambda>d. take 100 (pageContent d)) ` set (deduplicateDocuments docs)
       = (\<lambda>d. take 100 (pageContent d)) ` set docs
   \<and> (\<forall>d \<in> set (deduplicateDocuments docs).
         find (\<lambda>x. take 100 (pageContent x) = take 100 (pageContent d)) docs = Some d)
   \<and> deduplicateDocuments (deduplicateDocuments docs) = deduplicateDocuments docs
   \<and> (\<forall>a b. take 100 (pageContent a) = take 100 (pageContent b)
         \<longrightarrow> deduplicateDocuments [a, b] = [a])
   \<and> (\<forall>a b. take 100 (pageContent a) \<noteq> take 100 (pageContent b)
         \<longrightarrow> deduplicateDocuments [a, b, a] = [a, b])"
proof -
  have cid: "contentId = (\<lambda>d. take 100 (pageContent d))"
    by (rule ext) (simp add: contentId_def)
  from dedup_forEach_result [of docs Map.empty "[]"] obtain xs where
    xs: "deduplicateDocuments docs = xs" "subseq xs docs" "distinct (map contentId xs)"
      "contentId ` set xs = contentId ` set docs"
      "\<forall>d \<in> set xs. find (\<lambda>x. contentId x = contentId d) docs = Some d"
    by (auto simp: deduplicateDocuments_def)
  have idem: "deduplicateDocuments xs = xs"
    using dedup_forEach_distinct_keys [of xs Map.empty "[]"] xs(3)
    by (simp add: deduplicateDocuments_def)
  have pair: "\<forall>a b. take 100 (pageContent a) = take 100 (pageContent b)
      \<longrightarrow> deduplicateDocuments [a, b] = [a]"
    by (simp add: deduplicateDocuments_def contentId_def)
  have triple: "\<forall>a b. take 100 (pageContent a) \<noteq> take 100 (pageContent b)
      \<longrightarrow> deduplicateDocuments [a, b, a] = [a, b]"
    by (simp add: deduplicateDocuments_def contentId_def)
  have first: "deduplicateDocuments docs
     = map ((!) docs)
         (filter (\<lambda>i. \<forall>j<i. take 100 (pageContent (docs ! j)) \<noteq> take 100 (pageContent (docs ! i)))
            [0..<length docs])"
    using dedup_forEach_first_seen [of docs Map.empty "[]"]
    by (simp add: deduplicateDocuments_def contentId_def)
  show ?thesis
    using first xs idem pair triple unfolding cid by simp
qed

text \<open>
  A chunk repeated after another one stays in first place; the two header chunks share
  their first 100 characters and differ afterwards, and whichever comes first is kept.
\<close>

theorem deduplicateDocuments_first_occurrences_witness:
  "deduplicateDocuments [ex_doc ''alpha'', ex_doc ''beta'', ex_doc ''alpha'']
     = [ex_doc ''alpha'', ex_doc ''beta'']
   \<and> deduplicateDocuments [ex_header_a, ex_doc ''tail'', ex_header_b, ex_header_a]
     = [ex_header_a, ex_doc ''tail'']
   \<and> deduplicateDocuments [ex_header_b, ex_header_a] = [ex_header_b]
   \<and> pageContent ex_header_a \<noteq> pageContent ex_header_b"
proof -
  have nths: "[0..<3] = [0, 1, 2]" "[0..<4] = [0, 1, 2, 3]" "[0..<2] = [0, 1::nat]"
    by (simp_all add: upt_rec)
  have less: "(\<forall>j<0::nat. Q j) = True" "(\<forall>j<1::nat. Q j) = Q 0"
    "(\<forall>j<2::nat. Q j) = (Q 0 \<and> Q 1)" "(\<forall>j<3::nat. Q j) = (Q 0 \<and> Q 1 \<and> Q 2)" for Q
    by (auto simp: less_Suc_eq numeral_2_eq_2 numeral_3_eq_3)
  have differ: "pageContent ex_header_a \<noteq> pageContent ex_header_b"
    by (simp add: ex_header_a_def ex_header_b_def ex_doc_def)
  have ne: "replicate 100 (CHR ''h'') \<noteq> ''tail''"
    by (auto dest: arg_cong [where f = length])
  note inst1 = deduplicateDocuments_first_occurrences
    [of "[ex_doc ''alpha'', ex_doc ''beta'', ex_doc ''alpha'']", THEN conjunct1]
  note inst2 = deduplicateDocuments_first_occurrences
    [of "[ex_header_a, ex_doc ''tail'', ex_header_b, ex_header_a]", THEN conjunct1]
  note inst3 = deduplicateDocuments_first_occurrences
    [of "[ex_header_b, ex_header_a]", THEN conjunct1]
  have 1: "deduplicateDocuments [ex_doc ''alpha'', ex_doc ''beta'', ex_doc ''alpha'']
     = [ex_doc ''alpha'', ex_doc ''beta'']"
    unfolding inst1 by (simp add: nths less All_less_Suc Ex_less_Suc ex_doc_def)
  have 2: "deduplicateDocuments [ex_header_a, ex_doc ''tail'', ex_header_b, ex_header_a]
     = [ex_header_a, ex_doc ''tail'']"
    unfolding inst2 by (simp add: nths less ne All_less_Suc Ex_less_Suc ex_doc_def ex_header_a_def ex_header_b_def)
  have 3: "deduplicateDocuments [ex_header_b, ex_header_a] = [ex_header_b]"
    unfolding inst3 by (simp add: nths less ne All_less_Suc Ex_less_Suc ex_doc_def ex_header_a_def ex_header_b_def)
  show ?thesis using 1 2 3 differ by simp
qed

subsection \<open>Chat history\<close>



subsection \<open>Cosine similarity\<close>

text \<open>Powers of two, binades and rounded magnitudes.\<close>

lemma two_powi_pos: "0 < (2::real) powi k"
  by (simp add: zero_less_power_int)

lemma two_powi_powr: "(2::real) powi k = 2 powr (real_of_int k)"
  by (simp add: powr_real_of_int')

lemma two_powi_mono: "k \<le> l \<Longrightarrow> (2::real) powi k \<le> 2 powi l"
  by (simp add: two_powi_powr)

lemma two_powi_add: "(2::real) powi (k + l) = 2 powi k * 2 powi l"
  by (rule power_int_add) simp

lemma ulp_pos: "0 < ulp x"
  by (simp add: ulp_def two_powi_pos)


lemma binade_small: "x < 2 powi emin \<Longrightarrow> 0 < x \<Longrightarrow> binade x = emin"
proof -
  assume x: "x < 2 powi emin" "0 < x"
  then have "log 2 x < real_of_int emin"
    using two_powi_powr [of emin] by (simp add: log_less_iff)
  then have "\<lfloor>log 2 x\<rfloor> < emin"
    by (simp add: floor_less_iff)
  then show ?thesis by (simp add: binade_def)
qed

lemma binade_eq:
  assumes "2 powi e \<le> x" "x < 2 powi (e + 1)" "emin \<le> e"
  shows "binade x = e"
proof -
  have "0 < x" using assms(1) two_powi_pos [of e] by linarith
  then have "\<lfloor>log 2 x\<rfloor> = e"
    using assms(1,2) by (simp add: floor_log_eq_powr_iff two_powi_powr)
  with assms(3) show ?thesis by (simp add: binade_def)
qed

lemma binade_normal:
  assumes "2 powi emin \<le> x"
  shows "2 powi (binade x) \<le> x \<and> x < 2 powi (binade x + 1)"
proof -
  have x: "0 < x" using assms two_powi_pos [of emin] by linarith
  have "real_of_int emin \<le> log 2 x"
    using assms x two_powi_powr [of emin] by (simp add: le_log_iff)
  then have "emin \<le> \<lfloor>log 2 x\<rfloor>"
    by (simp add: le_floor_iff)
  then have b: "binade x = \<lfloor>log 2 x\<rfloor>"
    by (simp add: binade_def)
  from floor_log_eq_powr_iff [of x 2 "\<lfloor>log 2 x\<rfloor>"] x
  show ?thesis unfolding b by (simp add: two_powi_powr)
qed

lemma round_half_even_ge_floor: "\<lfloor>q\<rfloor> \<le> round_half_even q"
  by (simp add: round_half_even_def)


lemma round_mag_ge_floor: "of_int \<lfloor>x / ulp x\<rfloor> * ulp x \<le> round_mag x"
  unfolding round_mag_def
  using round_half_even_ge_floor [of "x / ulp x"] ulp_pos [of x]
  by simp



text \<open>Rounding does not go below a power of two that the argument reaches.\<close>

lemma floor_times_ulp:
  assumes "of_int j * ulp x \<le> x"
  shows "of_int j * ulp x \<le> round_mag x"
proof -
  have "of_int j \<le> x / ulp x"
    using assms ulp_pos [of x] by (simp add: le_divide_eq)
  then have "j \<le> \<lfloor>x / ulp x\<rfloor>"
    by (simp add: le_floor_iff)
  then have "(of_int j :: real) \<le> of_int \<lfloor>x / ulp x\<rfloor>"
    by linarith
  then have "of_int j * ulp x \<le> of_int \<lfloor>x / ulp x\<rfloor> * ulp x"
    using ulp_pos [of x] by simp
  with round_mag_ge_floor [of x] show ?thesis by linarith
qed

lemma round_mag_lower:
  assumes k: "emin - 52 \<le> k" and x: "2 powi k \<le> x"
  shows "2 powi k \<le> round_mag x"
proof (cases "x < 2 powi emin")
  case True
  have xp: "0 < x" using x two_powi_pos [of k] by linarith
  have u: "ulp x = 2 powi (emin - 52)"
    by (simp add: ulp_def binade_small [OF True xp])
  define j where "j = nat (k - (emin - 52))"
  have "k = int j + (emin - 52)"
    using k by (simp add: j_def)
  then have "(2::real) powi k = 2 powi (int j) * 2 powi (emin - 52)"
    by (simp only: two_powi_add)
  then have split: "(2::real) powi k = of_int (2 ^ j) * ulp x"
    by (simp add: u)
  from floor_times_ulp [of "2 ^ j" x] x show ?thesis
    unfolding split by simp
next
  case False
  then have n: "2 powi emin \<le> x" by simp
  let ?e = "binade x"
  from binade_normal [OF n] have e: "2 powi ?e \<le> x" "x < 2 powi (?e + 1)"
    by simp_all
  have ke: "k \<le> ?e"
  proof (rule ccontr)
    assume "\<not> k \<le> ?e"
    then have "?e + 1 \<le> k" by simp
    then have "(2::real) powi (?e + 1) \<le> 2 powi k" by (rule two_powi_mono)
    with e(2) x show False by linarith
  qed
  have "(2::real) powi 52 * 2 powi (?e - 52) = 2 powi (52 + (?e - 52))"
    by (rule two_powi_add [symmetric])
  also have "52 + (?e - 52) = ?e" by simp
  finally have split: "(2::real) powi ?e = of_int (2 ^ 52) * ulp x"
    by (simp add: ulp_def)
  from floor_times_ulp [of "2 ^ 52" x] e(1) have "2 powi ?e \<le> round_mag x"
    unfolding split by simp
  with two_powi_mono [OF ke] show ?thesis by linarith
qed





















lemma round_to_double_eval:
  assumes e: "emin \<le> e" "e \<le> emax"
    and x: "2 powi e \<le> x" "x < 2 powi (e + 1)"
    and n: "round_half_even (x * 2 powi (52 - e)) = n"
    and lt: "(of_int n :: real) * 2 powi (e - 52) < 2 powi (emax + 1)"
  shows "round_to_double x = Num (of_int n * 2 powi (e - 52))"
proof -
  have xp: "0 < x" using x(1) two_powi_pos [of e] by linarith
  then have ax: "\<bar>x\<bar> = x" by simp
  have be: "binade x = e"
    by (rule binade_eq [OF x e(1)])
  have u: "ulp x = 2 powi (e - 52)"
    by (simp add: ulp_def be)
  have inv: "(2::real) powi (52 - e) * 2 powi (e - 52) = 1"
    using two_powi_add [of "52 - e" "e - 52"] by simp
  have q: "x / ulp x = x * 2 powi (52 - e)"
    unfolding u using inv two_powi_pos [of "e - 52"] by (simp add: field_simps)
  have m: "round_mag x = of_int n * 2 powi (e - 52)"
    by (simp only: round_mag_def q n) (simp only: u)
  have lower: "2 powi e \<le> round_mag x"
    using e(1) x(1) by (intro round_mag_lower) simp_all
  have no_over: "\<not> 2 powi (emax + 1) \<le> round_mag x"
    using lt by (simp add: m)
  have nz: "round_mag x \<noteq> 0"
    using lower two_powi_pos [of e] by linarith
  show ?thesis
    unfolding round_to_double_def ax using no_over nz xp m by auto
qed











lemma double_ops_Num:
  "double_mul (Num x) (Num y)
     = (if x * y = 0 then zero_of ((x < 0) \<noteq> (y < 0)) else round_to_double (x * y))"
  "double_add (Num x) (Num y)
     = (if x + y = 0 then zero_of (x < 0 \<and> y < 0) else round_to_double (x + y))"
  "double_div (Num x) (Num y)
     = (if y = 0 then (if x = 0 then NaN else inf_of (x < 0))
        else if x = 0 then zero_of (y < 0) else round_to_double (x / y))"
  "double_sqrt (Num x) = (if x < 0 then NaN else if x = 0 then Num 0 else round_to_double (sqrt x))"
  by (auto simp: double_mul_def double_add_def double_div_def double_sqrt_def is_infinite_def
        is_zero_def)



text \<open>
  The arithmetic on familiar numbers: the doubles nearest to 0.1 and 0.2 add up to the
  double that prints as \<^verbatim>\<open>0.30000000000000004\<close> (the exact sum lies half-way between
  two doubles and goes to the even one), and \<^verbatim>\<open>1 / 3\<close> is rounded down.
\<close>

lemma double_add_tenth_fifth:
  "double_add (Num (3602879701896397 / 2 ^ 55)) (Num (3602879701896397 / 2 ^ 54))
     = Num (1351079888211149 / 2 ^ 52)"
  using round_to_double_eval
    [of "- 2" "3602879701896397 / 2 ^ 55 + 3602879701896397 / 2 ^ 54" 5404319552844596]
  by (simp add: double_ops_Num emin_def emax_def round_half_even_def)

lemma double_div_third: "double_div (Num 1) (Num 3) = Num (6004799503160661 / 2 ^ 54)"
  using round_to_double_eval [of "- 2" "1 / 3" 6004799503160661]
  by (simp add: double_ops_Num emin_def emax_def round_half_even_def)





subsection \<open>Context assembly\<close>

lemma format_docs_map_citations:
  "snd (format_docs_map idx docs (Some cs))
     = Some (cs @ map (\<lambda>d. \<lparr>cite_source = doc_source d, cite_page = doc_page d,
                              cite_text = excerpt d\<rparr>) docs)"
  by (induction docs arbitrary: idx cs) (simp_all add: Let_def)

lemma format_docs_map_length:
  "length (fst (format_docs_map idx docs citations)) = length docs"
  by (induction docs arbitrary: idx citations) (simp_all add: Let_def)

lemma format_docs_map_nth:
  "i < length docs \<Longrightarrow>
     fst (format_docs_map idx docs citations) ! i
       = ''--- Dokumen #'' @ show_nat (idx + i + 1) @ '': ''
           @ citationText (doc_source (docs ! i)) (doc_page (docs ! i))
           @ '' ---'' @ [newline] @ block_body (docs ! i) @ [newline]"
proof (induction docs arbitrary: idx citations i)
  case Nil
  then show ?case by simp
next
  case (Cons d docs)
  show ?case
  proof (cases i)
    case 0
    then show ?thesis by (simp add: Let_def)
  next
    case (Suc k)
    with Cons.prems have "k < length docs" by simp
    from Cons.IH [OF this, of "idx + 1"] Suc show ?thesis
      by (simp add: Let_def)
  qed
qed

lemma excerpt_prefix: "prefix (excerpt d) (block_body d) \<and> length (excerpt d) \<le> 200"
  by (auto simp: excerpt_def block_body_def take_is_prefix split: option.splits)

text \<open>
  \<^verbatim>\<open>join\<close> puts the separator after every element but the last, and
  \<^verbatim>\<open>show_nat\<close> is the decimal numeral without leading zeros.
\<close>

lemma join_concat:
  "join sep xs = concat (map (\<lambda>b. b @ sep) (butlast xs)) @ (if xs = [] then [] else last xs)"
  by (induction sep xs rule: join.induct) simp_all

lemma digit_char_code: "d < 10 \<Longrightarrow> of_char (digit_char d) = (48::nat) + d"
proof -
  assume "d < 10"
  then have "d = 0 \<or> d = 1 \<or> d = 2 \<or> d = 3 \<or> d = 4 \<or> d = 5 \<or> d = 6 \<or> d = 7 \<or> d = 8 \<or> d = 9"
    by arith
  then show ?thesis
    by (elim disjE) (simp_all add: digit_char_def)
qed

lemma show_nat_decimal:
  "show_nat n \<noteq> []
   \<and> (\<forall>ch \<in> set (show_nat n). (48::nat) \<le> of_char ch \<and> of_char ch \<le> (57::nat))
   \<and> foldl (\<lambda>a ch. 10 * a + (of_char ch - (48::nat))) 0 (show_nat n) = n
   \<and> (n \<noteq> 0 \<longrightarrow> hd (show_nat n) \<noteq> CHR ''0'')"
proof (induction n rule: show_nat.induct)
  case (1 n)
  show ?case
  proof (cases "n < 10")
    case True
    then have s: "show_nat n = [digit_char n]"
      by (simp add: show_nat.simps)
    have c: "of_char (digit_char n) = (48::nat) + n"
      using True by (rule digit_char_code)
    have "n \<noteq> 0 \<longrightarrow> digit_char n \<noteq> CHR ''0''"
    proof
      assume "n \<noteq> 0"
      with c have "of_char (digit_char n) \<noteq> (48::nat)" by simp
      then show "digit_char n \<noteq> CHR ''0''" by auto
    qed
    with s c True show ?thesis by simp
  next
    case False
    then have s: "show_nat n = show_nat (n div 10) @ [digit_char (n mod 10)]"
      by (subst show_nat.simps) simp
    have c: "of_char (digit_char (n mod 10)) = (48::nat) + n mod 10"
      by (rule digit_char_code) simp
    from 1 [OF False] have ih: "show_nat (n div 10) \<noteq> []"
      "\<forall>ch \<in> set (show_nat (n div 10)). (48::nat) \<le> of_char ch \<and> of_char ch \<le> (57::nat)"
      "foldl (\<lambda>a ch. 10 * a + (of_char ch - (48::nat))) 0 (show_nat (n div 10)) = n div 10"
      "n div 10 \<noteq> 0 \<longrightarrow> hd (show_nat (n div 10)) \<noteq> CHR ''0''"
      by blast+
    have d: "n div 10 \<noteq> 0" using False by simp
    have "n mod 10 < 10" by simp
    then have r: "(48::nat) + n mod 10 \<le> 57" by linarith
    show ?thesis
      unfolding s using ih c d r by simp
  qed
qed

text \<open>
  Claim C7. For every list of chunks and every citations array,
  \<^verbatim>\<open>formatContextFromDocs\<close> returns one block per chunk in input order, every block
  but the last followed by a blank line (two line feeds), and appends one citation per
  chunk in the same order. Block \<open>i\<close> (counted from 1) is the line
  \<^verbatim>\<open>--- Dokumen #i: label ---\<close>, the chunk's content and a line feed. The label is the
  source of citation \<open>i\<close>, followed by \<^verbatim>\<open> (halaman p)\<close> exactly when the citation has
  a page \<open>p\<close> that is neither \<^verbatim>\<open>0\<close> nor the empty string. The citation's source is
  the chunk's \<^verbatim>\<open>source\<close>, else its \<^verbatim>\<open>document_title\<close>, else
  \<^verbatim>\<open>Unknown Source\<close>; its page is the chunk's \<^verbatim>\<open>page\<close>, else its
  \<^verbatim>\<open>pageNumber\<close>; its excerpt is the first 200 characters of the chunk's content.
  Numbers are written in decimal.
\<close>

theorem formatContextFromDocs_blocks_and_citations:
  "\<exists>blocks new.
     formatContextFromDocs docs (Some cs)
       = (concat (map (\<lambda>b. b @ [CHR 0x0A, CHR 0x0A]) (butlast blocks))
            @ (if blocks = [] then [] else last blocks),
          Some (cs @ new))
     \<and> length blocks = length docs
     \<and> length new = length docs
     \<and> (\<forall>i < length docs.
           blocks ! i
             = ''--- Dokumen #'' @ show_nat (i + 1) @ '': '' @ cite_source (new ! i)
                 @ (case cite_page (new ! i) of
                      None \<Rightarrow> []
                    | Some (PageNum n) \<Rightarrow>
                        if n = 0 then [] else '' (halaman '' @ show_nat n @ '')''
                    | Some (PageStr s) \<Rightarrow>
                        if s = [] then [] else '' (halaman '' @ s @ '')'')
                 @ '' ---'' @ [CHR 0x0A]
                 @ (if pageContent (docs ! i) \<noteq> [] then pageContent (docs ! i)
                    else case content (docs ! i) of None \<Rightarrow> ''undefined'' | Some t \<Rightarrow> t)
                 @ [CHR 0x0A]
           \<and> cite_source (new ! i)
               = (case source (metadata (docs ! i)) of
                    Some (c # s) \<Rightarrow> c # s
                  | _ \<Rightarrow> (case document_title (metadata (docs ! i)) of
                            Some (c # t) \<Rightarrow> c # t
                          | _ \<Rightarrow> ''Unknown Source''))
           \<and> cite_page (new ! i)
               = (if page (metadata (docs ! i)) = None
                     \<or> page (metadata (docs ! i)) = Some (PageNum 0)
                     \<or> page (metadata (docs ! i)) = Some (PageStr [])
                  then pageNumber (metadata (docs ! i))
                  else page (metadata (docs ! i)))
           \<and> cite_text (new ! i)
               = (if pageContent (docs ! i) \<noteq> [] then take 200 (pageContent (docs ! i))
                  else case content (docs ! i) of None \<Rightarrow> [] | Some t \<Rightarrow> take 200 t)
           \<and> length (cite_text (new ! i)) \<le> 200)
     \<and> (\<forall>n. show_nat n \<noteq> []
            \<and> (\<forall>ch \<in> set (show_nat n). (48::nat) \<le> of_char ch \<and> of_char ch \<le> (57::nat))
            \<and> foldl (\<lambda>a ch. 10 * a + (of_char ch - (48::nat))) 0 (show_nat n) = n
            \<and> (n \<noteq> 0 \<longrightarrow> hd (show_nat n) \<noteq> CHR ''0''))"
proof -
  let ?blocks = "fst (format_docs_map 0 docs (Some cs))"
  let ?new = "map (\<lambda>d. \<lparr>cite_source = doc_source d, cite_page = doc_page d,
                         cite_text = excerpt d\<rparr>) docs"
  have res: "formatContextFromDocs docs (Some cs)
      = (concat (map (\<lambda>b. b @ [CHR 0x0A, CHR 0x0A]) (butlast ?blocks))
            @ (if ?blocks = [] then [] else last ?blocks), Some (cs @ ?new))"
  proof (cases docs)
    case Nil
    then show ?thesis by (simp add: formatContextFromDocs_def)
  next
    case (Cons d ds)
    then have "length docs \<noteq> 0" by simp
    then show ?thesis
      by (simp add: formatContextFromDocs_def Let_def format_docs_map_citations
            join_concat newline_def)
  qed
  have len: "length ?blocks = length docs" "length ?new = length docs"
    by (simp_all add: format_docs_map_length)
  have src: "doc_source d = (case source (metadata d) of
                    Some (c # s) \<Rightarrow> c # s
                  | _ \<Rightarrow> (case document_title (metadata d) of
                            Some (c # t) \<Rightarrow> c # t
                          | _ \<Rightarrow> ''Unknown Source''))" for d
    by (simp add: doc_source_def split: option.splits list.splits)
  have pg: "doc_page d = (if page (metadata d) = None
                     \<or> page (metadata d) = Some (PageNum 0)
                     \<or> page (metadata d) = Some (PageStr [])
                  then pageNumber (metadata d)
                  else page (metadata d))" for d
    by (auto simp: doc_page_def truthy_page_def split: option.splits page_value.splits)
  have exc: "excerpt d = (if pageContent d \<noteq> [] then take 200 (pageContent d)
                  else case content d of None \<Rightarrow> [] | Some t \<Rightarrow> take 200 t)" for d
    by (simp add: excerpt_def split: option.splits)
  have lab: "citationText s p = s @ (case p of
                      None \<Rightarrow> []
                    | Some (PageNum n) \<Rightarrow>
                        if n = 0 then [] else '' (halaman '' @ show_nat n @ '')''
                    | Some (PageStr s) \<Rightarrow>
                        if s = [] then [] else '' (halaman '' @ s @ '')'')" for s p
    by (simp add: citationText_def truthy_page_def show_page_def
          split: option.splits page_value.splits)
  have body: "block_body d = (if pageContent d \<noteq> [] then pageContent d
                    else case content d of None \<Rightarrow> ''undefined'' | Some t \<Rightarrow> t)" for d
    by (simp add: block_body_def)
  have blk: "i < length docs \<Longrightarrow> ?blocks ! i
             = ''--- Dokumen #'' @ show_nat (i + 1) @ '': '' @ cite_source (?new ! i)
                 @ (case cite_page (?new ! i) of
                      None \<Rightarrow> []
                    | Some (PageNum n) \<Rightarrow>
                        if n = 0 then [] else '' (halaman '' @ show_nat n @ '')''
                    | Some (PageStr s) \<Rightarrow>
                        if s = [] then [] else '' (halaman '' @ s @ '')'')
                 @ '' ---'' @ [CHR 0x0A]
                 @ (if pageContent (docs ! i) \<noteq> [] then pageContent (docs ! i)
                    else case content (docs ! i) of None \<Rightarrow> ''undefined'' | Some t \<Rightarrow> t)
                 @ [CHR 0x0A]" for i
    by (simp add: format_docs_map_nth lab newline_def body [symmetric])
  have each: "\<forall>i < length docs.
           ?blocks ! i
             = ''--- Dokumen #'' @ show_nat (i + 1) @ '': '' @ cite_source (?new ! i)
                 @ (case cite_page (?new ! i) of
                      None \<Rightarrow> []
                    | Some (PageNum n) \<Rightarrow>
                        if n = 0 then [] else '' (halaman '' @ show_nat n @ '')''
                    | Some (PageStr s) \<Rightarrow>
                        if s = [] then [] else '' (halaman '' @ s @ '')'')
                 @ '' ---'' @ [CHR 0x0A]
                 @ (if pageContent (docs ! i) \<noteq> [] then pageContent (docs ! i)
                    else case content (docs ! i) of None \<Rightarrow> ''undefined'' | Some t \<Rightarrow> t)
                 @ [CHR 0x0A]
           \<and> cite_source (?new ! i)
               = (case source (metadata (docs ! i)) of
                    Some (c # s) \<Rightarrow> c # s
                  | _ \<Rightarrow> (case document_title (metadata (docs ! i)) of
                            Some (c # t) \<Rightarrow> c # t
                          | _ \<Rightarrow> ''Unknown Source''))
           \<and> cite_page (?new ! i)
               = (if page (metadata (docs ! i)) = None
                     \<or> page (metadata (docs ! i)) = Some (PageNum 0)
                     \<or> page (metadata (docs ! i)) = Some (PageStr [])
                  then pageNumber (metadata (docs ! i))
                  else page (metadata (docs ! i)))
           \<and> cite_text (?new ! i)
               = (if pageContent (docs ! i) \<noteq> [] then take 200 (pageContent (docs ! i))
                  else case content (docs ! i) of None \<Rightarrow> [] | Some t \<Rightarrow> take 200 t)
           \<and> length (cite_text (?new ! i)) \<le> 200"
  proof (intro allI impI conjI)
    fix i assume i: "i < length docs"
    show "?blocks ! i
             = ''--- Dokumen #'' @ show_nat (i + 1) @ '': '' @ cite_source (?new ! i)
                 @ (case cite_page (?new ! i) of
                      None \<Rightarrow> []
                    | Some (PageNum n) \<Rightarrow>
                        if n = 0 then [] else '' (halaman '' @ show_nat n @ '')''
                    | Some (PageStr s) \<Rightarrow>
                        if s = [] then [] else '' (halaman '' @ s @ '')'')
                 @ '' ---'' @ [CHR 0x0A]
                 @ (if pageContent (docs ! i) \<noteq> [] then pageContent (docs ! i)
                    else case content (docs ! i) of None \<Rightarrow> ''undefined'' | Some t \<Rightarrow> t)
                 @ [CHR 0x0A]"
      by (rule blk [OF i])
    show "cite_source (?new ! i)
               = (case source (metadata (docs ! i)) of
                    Some (c # s) \<Rightarrow> c # s
                  | _ \<Rightarrow> (case document_title (metadata (docs ! i)) of
                            Some (c # t) \<Rightarrow> c # t
                          | _ \<Rightarrow> ''Unknown Source''))"
      using i src [of "docs ! i"] by simp
    show "cite_page (?new ! i)
               = (if page (metadata (docs ! i)) = None
                     \<or> page (metadata (docs ! i)) = Some (PageNum 0)
                     \<or> page (metadata (docs ! i)) = Some (PageStr [])
                  then pageNumber (metadata (docs ! i))
                  else page (metadata (docs ! i)))"
      using i pg [of "docs ! i"] by simp
    show "cite_text (?new ! i)
               = (if pageContent (docs ! i) \<noteq> [] then take 200 (pageContent (docs ! i))
                  else case content (docs ! i) of None \<Rightarrow> [] | Some t \<Rightarrow> take 200 t)"
      using i exc [of "docs ! i"] by simp
    show "length (cite_text (?new ! i)) \<le> 200"
      using i excerpt_prefix [of "docs ! i"] by simp
  qed
  from res len each show_nat_decimal show ?thesis by blast
qed

lemma list3_nth: "length xs = 3 \<Longrightarrow> xs = [xs ! 0, xs ! 1, xs ! 2]"
  by (auto simp: numeral_3_eq_3 length_Suc_conv)

text \<open>
  Three chunks appended to an array that already holds a citation: one with a source and
  a page, one without metadata, and one that falls back to its title, its
  \<^verbatim>\<open>pageNumber\<close> and its \<^verbatim>\<open>content\<close>.
\<close>

theorem formatContextFromDocs_blocks_and_citations_witness:
  "formatContextFromDocs [ex_paged_doc, ex_doc ''tail'', ex_titled_doc]
       (Some [ex_cite ''earlier''])
     = (''--- Dokumen #1: physics.pdf (halaman 3) ---'' @ [CHR 0x0A]
          @ ''E = mc^2'' @ [CHR 0x0A, CHR 0x0A, CHR 0x0A]
          @ ''--- Dokumen #2: Unknown Source ---'' @ [CHR 0x0A]
          @ ''tail'' @ [CHR 0x0A, CHR 0x0A, CHR 0x0A]
          @ ''--- Dokumen #3: Notes (halaman 12) ---'' @ [CHR 0x0A]
          @ ''fallback body'' @ [CHR 0x0A],
        Some [ex_cite ''earlier'',
              \<lparr>cite_source = ''physics.pdf'', cite_page = Some (PageNum 3),
                 cite_text = ''E = mc^2''\<rparr>,
              \<lparr>cite_source = ''Unknown Source'', cite_page = None, cite_text = ''tail''\<rparr>,
              \<lparr>cite_source = ''Notes'', cite_page = Some (PageNum 12),
                 cite_text = ''fallback body''\<rparr>])"
proof -
  let ?docs = "[ex_paged_doc, ex_doc ''tail'', ex_titled_doc]"
  let ?blk = "\<lambda>i src pg. ''--- Dokumen #'' @ show_nat (i + 1) @ '': '' @ src
                 @ (case pg of
                      None \<Rightarrow> []
                    | Some (PageNum n) \<Rightarrow>
                        if n = 0 then [] else '' (halaman '' @ show_nat n @ '')''
                    | Some (PageStr s) \<Rightarrow>
                        if s = [] then [] else '' (halaman '' @ s @ '')'')
                 @ '' ---'' @ [CHR 0x0A]
                 @ (if pageContent (?docs ! i) \<noteq> [] then pageContent (?docs ! i)
                    else case content (?docs ! i) of None \<Rightarrow> ''undefined'' | Some t \<Rightarrow> t)
                 @ [CHR 0x0A]"
  from formatContextFromDocs_blocks_and_citations [of ?docs "[ex_cite ''earlier'']"]
  obtain blocks new where
    r: "formatContextFromDocs ?docs (Some [ex_cite ''earlier''])
          = (concat (map (\<lambda>b. b @ [CHR 0x0A, CHR 0x0A]) (butlast blocks))
               @ (if blocks = [] then [] else last blocks),
             Some ([ex_cite ''earlier''] @ new))"
    and len: "length blocks = length ?docs" "length new = length ?docs"
    and each: "\<forall>i < length ?docs.
           blocks ! i = ?blk i (cite_source (new ! i)) (cite_page (new ! i))
           \<and> cite_source (new ! i)
               = (case source (metadata (?docs ! i)) of
                    Some (c # s) \<Rightarrow> c # s
                  | _ \<Rightarrow> (case document_title (metadata (?docs ! i)) of
                            Some (c # t) \<Rightarrow> c # t
                          | _ \<Rightarrow> ''Unknown Source''))
           \<and> cite_page (new ! i)
               = (if page (metadata (?docs ! i)) = None
                     \<or> page (metadata (?docs ! i)) = Some (PageNum 0)
                     \<or> page (metadata (?docs ! i)) = Some (PageStr [])
                  then pageNumber (metadata (?docs ! i))
                  else page (metadata (?docs ! i)))
           \<and> cite_text (new ! i)
               = (if pageContent (?docs ! i) \<noteq> [] then take 200 (pageContent (?docs ! i))
                  else case content (?docs ! i) of None \<Rightarrow> [] | Some t \<Rightarrow> take 200 t)
           \<and> length (cite_text (new ! i)) \<le> 200"
    by blast
  have digits: "show_nat 1 = ''1''" "show_nat 2 = ''2''" "show_nat 3 = ''3''" "show_nat 12 = ''12''"
    "show_nat (Suc 0) = ''1''" "show_nat (Suc (Suc 0)) = ''2''"
    by (simp_all add: show_nat.simps digit_char_def)
  have l3: "length blocks = 3" "length new = 3"
    using len by simp_all
  have nb: "blocks = [blocks ! 0, blocks ! 1, blocks ! 2]"
    by (rule list3_nth [OF l3(1)])
  have nn: "new = [new ! 0, new ! 1, new ! 2]"
    by (rule list3_nth [OF l3(2)])
  have c0: "new ! 0 = \<lparr>cite_source = ''physics.pdf'', cite_page = Some (PageNum 3),
                 cite_text = ''E = mc^2''\<rparr>"
    using each [rule_format, of 0] by (simp add: ex_paged_doc_def)
  have c1: "new ! 1 = \<lparr>cite_source = ''Unknown Source'', cite_page = None, cite_text = ''tail''\<rparr>"
    using each [rule_format, of 1] by (simp add: ex_doc_def)
  have c2: "new ! 2 = \<lparr>cite_source = ''Notes'', cite_page = Some (PageNum 12),
                 cite_text = ''fallback body''\<rparr>"
    using each [rule_format, of 2] by (simp add: ex_titled_doc_def)
  have b0: "blocks ! 0 = ''--- Dokumen #1: physics.pdf (halaman 3) ---'' @ [CHR 0x0A]
          @ ''E = mc^2'' @ [CHR 0x0A]"
    using each [rule_format, of 0] by (simp add: c0 digits ex_paged_doc_def)
  have b1: "blocks ! 1 = ''--- Dokumen #2: Unknown Source ---'' @ [CHR 0x0A]
          @ ''tail'' @ [CHR 0x0A]"
    using each [rule_format, of 1] by (simp add: c1 digits ex_doc_def)
  have b2: "blocks ! 2 = ''--- Dokumen #3: Notes (halaman 12) ---'' @ [CHR 0x0A]
          @ ''fallback body'' @ [CHR 0x0A]"
    using each [rule_format, of 2] by (simp add: c2 digits ex_titled_doc_def)
  have blocks: "blocks = [''--- Dokumen #1: physics.pdf (halaman 3) ---'' @ [CHR 0x0A]
          @ ''E = mc^2'' @ [CHR 0x0A], ''--- Dokumen #2: Unknown Source ---'' @ [CHR 0x0A]
          @ ''tail'' @ [CHR 0x0A], ''--- Dokumen #3: Notes (halaman 12) ---'' @ [CHR 0x0A]
          @ ''fallback body'' @ [CHR 0x0A]]"
    using nb b0 b1 b2 by simp
  have new: "new = [\<lparr>cite_source = ''physics.pdf'', cite_page = Some (PageNum 3),
                 cite_text = ''E = mc^2''\<rparr>,
              \<lparr>cite_source = ''Unknown Source'', cite_page = None, cite_text = ''tail''\<rparr>,
              \<lparr>cite_source = ''Notes'', cite_page = Some (PageNum 12),
                 cite_text = ''fallback body''\<rparr>]"
    using nn c0 c1 c2 by simp
  show ?thesis
    unfolding r blocks new by simp
qed

subsection \<open>References section\<close>










subsection \<open>Retry with backoff\<close>

lemma retry_loop_exhausted:
  "maxRetries opts \<le> a \<Longrightarrow>
     retry_loop fn opts random a le w = \<lparr>outcome = Inl le, invocations = a, delays = w\<rparr>"
  by (simp add: retry_loop.simps)

lemma retry_loop_retriable_step:
  "a < maxRetries opts \<Longrightarrow> fn a = Inl e \<Longrightarrow> shouldRetry (retryStatusCodes opts) e \<Longrightarrow>
     retry_loop fn opts random a le w
       = retry_loop fn opts random (a + 1) (Some e) (w @ [jitter opts random a])"
  by (subst retry_loop.simps) simp

lemma retry_loop_stop_value:
  "a < maxRetries opts \<Longrightarrow> fn a = Inr v \<Longrightarrow>
     retry_loop fn opts random a le w = \<lparr>outcome = Inr v, invocations = a + 1, delays = w\<rparr>"
  by (subst retry_loop.simps) simp

lemma retry_loop_stop_error:
  "a < maxRetries opts \<Longrightarrow> fn a = Inl e \<Longrightarrow> \<not> shouldRetry (retryStatusCodes opts) e \<Longrightarrow>
     retry_loop fn opts random a le w
       = \<lparr>outcome = Inl (Some e), invocations = a + 1, delays = w\<rparr>"
  by (subst retry_loop.simps) simp

lemma retry_loop_reaches:
  "a \<le> k \<Longrightarrow> k \<le> maxRetries opts \<Longrightarrow>
   \<forall>j. a \<le> j \<and> j < k \<longrightarrow> (\<exists>e. fn j = Inl e \<and> shouldRetry (retryStatusCodes opts) e) \<Longrightarrow>
     retry_loop fn opts random a le w
       = retry_loop fn opts random k
           (if a < k then (case fn (k - 1) of Inl e \<Rightarrow> Some e | Inr v \<Rightarrow> None) else le)
           (w @ map (jitter opts random) [a..<k])"
proof (induction "k - a" arbitrary: a le w)
  case 0
  then show ?case by simp
next
  case (Suc n)
  then have ak: "a < k" and am: "a < maxRetries opts" by simp_all
  with Suc.prems(3) obtain e where e: "fn a = Inl e" "shouldRetry (retryStatusCodes opts) e"
    by (metis order_refl)
  have step: "retry_loop fn opts random a le w
      = retry_loop fn opts random (Suc a) (Some e) (w @ [jitter opts random a])"
    using retry_loop_retriable_step [of a opts fn e random le w] am e by simp
  have n: "n = k - Suc a" using Suc.hyps(2) by simp
  have le': "Suc a \<le> k" using ak by simp
  have rest: "\<forall>j. Suc a \<le> j \<and> j < k \<longrightarrow> (\<exists>e. fn j = Inl e \<and> shouldRetry (retryStatusCodes opts) e)"
    using Suc.prems(3) by simp
  have last: "(if Suc a < k then (case fn (k - 1) of Inl e \<Rightarrow> Some e | Inr v \<Rightarrow> None) else Some e)
      = (case fn (k - 1) of Inl e \<Rightarrow> Some e | Inr v \<Rightarrow> None)"
  proof (cases "Suc a < k")
    case True
    then show ?thesis by simp
  next
    case False
    with ak have "k - 1 = a" by simp
    with False e(1) show ?thesis by simp
  qed
  have lst: "(w @ [jitter opts random a]) @ map (jitter opts random) [Suc a..<k]
      = w @ map (jitter opts random) [a..<k]"
    using ak by (simp add: upt_conv_Cons)
  show ?case
    unfolding step Suc.hyps(1) [OF n le' Suc.prems(2) rest, of "Some e" "w @ [jitter opts random a]"]
      last lst
    using ak by simp
qed

lemma retry_loop_shape:
  "\<exists>n. delays (retry_loop fn opts random a le w) = w @ map (jitter opts random) [a..<a + n]
      \<and> invocations (retry_loop fn opts random a le w) \<le> max a (maxRetries opts)"
proof (induction "maxRetries opts - a" arbitrary: a le w)
  case 0
  then have "maxRetries opts \<le> a" by simp
  then show ?case by (intro exI [of _ 0]) (simp add: retry_loop_exhausted)
next
  case (Suc n)
  then have am: "a < maxRetries opts" by simp
  show ?case
  proof (cases "fn a")
    case (Inr v)
    with am show ?thesis by (intro exI [of _ 0]) (simp add: retry_loop_stop_value)
  next
    case (Inl e)
    show ?thesis
    proof (cases "shouldRetry (retryStatusCodes opts) e")
      case False
      with am Inl show ?thesis by (intro exI [of _ 0]) (simp add: retry_loop_stop_error)
    next
      case True
      have n: "n = maxRetries opts - Suc a" using Suc.hyps(2) by simp
      from Suc.hyps(1) [OF n, of "Some e" "w @ [jitter opts random a]"]
      obtain m where m:
        "delays (retry_loop fn opts random (Suc a) (Some e) (w @ [jitter opts random a]))
           = (w @ [jitter opts random a]) @ map (jitter opts random) [Suc a..<Suc a + m]"
        "invocations (retry_loop fn opts random (Suc a) (Some e) (w @ [jitter opts random a]))
           \<le> max (Suc a) (maxRetries opts)"
        by blast
      have lst: "(w @ [jitter opts random a]) @ map (jitter opts random) [Suc a..<Suc a + m]
          = w @ map (jitter opts random) [a..<a + Suc m]"
      proof -
        have "[a..<a + Suc m] = a # [Suc a..<Suc a + m]"
          by (subst upt_rec) simp
        then show ?thesis by simp
      qed
      have mx: "max (Suc a) (maxRetries opts) = max a (maxRetries opts)"
        using am by simp
      have step: "retry_loop fn opts random a le w
          = retry_loop fn opts random (Suc a) (Some e) (w @ [jitter opts random a])"
        using retry_loop_retriable_step [of a opts fn e random le w] am Inl True by simp
      have d: "delays (retry_loop fn opts random a le w)
          = w @ map (jitter opts random) [a..<a + Suc m]"
        by (simp only: step m(1) lst)
      have i: "invocations (retry_loop fn opts random a le w) \<le> max a (maxRetries opts)"
        using m(2) by (simp only: step mx)
      from d i show ?thesis by blast
    qed
  qed
qed

lemma jitter_factor:
  "0 \<le> r \<Longrightarrow> r < 1 \<Longrightarrow> (0.8::real) \<le> 0.8 + r * 0.4 \<and> 0.8 + r * 0.4 < 1.2"
  by simp

text \<open>
  Claim C2, as the code has it. \<open>fn k\<close> is the \<open>k\<close>-th invocation of the
  operation, counted from 0. The operation is invoked at most \<^verbatim>\<open>maxRetries\<close> times.
  When \<^verbatim>\<open>maxRetries\<close> is at least 1: if the first invocation throws an error that
  \<^verbatim>\<open>shouldRetry\<close> does not accept, the operation is invoked exactly once, that error
  is thrown and nothing is waited; if every invocation throws an error that
  \<^verbatim>\<open>shouldRetry\<close> accepts, the operation is invoked exactly \<^verbatim>\<open>maxRetries\<close> times
  and the last error is thrown; if the invocations before invocation \<open>k\<close> throw accepted
  errors and invocation \<open>k < maxRetries\<close> returns, its value is returned after exactly
  \<open>k + 1\<close> invocations and \<open>k\<close> delays. The delay after attempt \<open>i\<close> is
  \<open>min maxDelay (initialDelay * 2^i)\<close> times a factor \<open>0.8 + 0.4 * random\<close>, which
  lies between 0.8 and 1.2.
\<close>

theorem retryWithAdvancedBackoff_attempts:
  "invocations (retryWithAdvancedBackoff fn opts random) \<le> maxRetries opts
   \<and> (1 \<le> maxRetries opts \<and> fn 0 = Inl e \<and> \<not> shouldRetry (retryStatusCodes opts) e \<longrightarrow>
        retryWithAdvancedBackoff fn opts random
          = \<lparr>outcome = Inl (Some e), invocations = 1, delays = []\<rparr>)
   \<and> (1 \<le> maxRetries opts
        \<and> (\<forall>j < maxRetries opts. \<exists>e'. fn j = Inl e' \<and> shouldRetry (retryStatusCodes opts) e')
        \<and> fn (maxRetries opts - 1) = Inl e \<longrightarrow>
        outcome (retryWithAdvancedBackoff fn opts random) = Inl (Some e)
        \<and> invocations (retryWithAdvancedBackoff fn opts random) = maxRetries opts)
   \<and> (k < maxRetries opts
        \<and> (\<forall>j < k. \<exists>e'. fn j = Inl e' \<and> shouldRetry (retryStatusCodes opts) e')
        \<and> fn k = Inr v \<longrightarrow>
        outcome (retryWithAdvancedBackoff fn opts random) = Inr v
        \<and> invocations (retryWithAdvancedBackoff fn opts random) = k + 1
        \<and> length (delays (retryWithAdvancedBackoff fn opts random)) = k)
   \<and> (\<forall>i < length (delays (retryWithAdvancedBackoff fn opts random)).
          delays (retryWithAdvancedBackoff fn opts random) ! i
            = min (maxDelay opts) (initialDelay opts * 2 ^ i) * (0.8 + random i * 0.4))
   \<and> ((\<forall>i. 0 \<le> random i \<and> random i < 1) \<longrightarrow>
        (\<forall>i < length (delays (retryWithAdvancedBackoff fn opts random)).
           \<exists>f. 0.8 \<le> f \<and> f \<le> 1.2
             \<and> delays (retryWithAdvancedBackoff fn opts random) ! i
                 = min (maxDelay opts) (initialDelay opts * 2 ^ i) * f))"
proof -
  let ?run = "retryWithAdvancedBackoff fn opts random"
  let ?codes = "retryStatusCodes opts"
  from retry_loop_shape [of fn opts random 0 None "[]"] obtain n where
    n: "delays ?run = map (jitter opts random) [0..<n]"
    and bound: "invocations ?run \<le> maxRetries opts"
    by (auto simp: retryWithAdvancedBackoff_def)
  have once: "?run = \<lparr>outcome = Inl (Some e), invocations = 1, delays = []\<rparr>"
    if "1 \<le> maxRetries opts" "fn 0 = Inl e" "\<not> shouldRetry ?codes e"
    using that retry_loop_stop_error [of 0 opts fn e random None "[]"]
    by (simp add: retryWithAdvancedBackoff_def)
  have exhausted: "outcome ?run = Inl (Some e) \<and> invocations ?run = maxRetries opts"
    if h: "1 \<le> maxRetries opts"
      "\<forall>j < maxRetries opts. \<exists>e'. fn j = Inl e' \<and> shouldRetry ?codes e'"
      "fn (maxRetries opts - 1) = Inl e"
  proof -
    have "?run = retry_loop fn opts random (maxRetries opts)
        (if 0 < maxRetries opts
         then (case fn (maxRetries opts - 1) of Inl e \<Rightarrow> Some e | Inr v \<Rightarrow> None) else None)
        ([] @ map (jitter opts random) [0..<maxRetries opts])"
      unfolding retryWithAdvancedBackoff_def
      using h(2) by (intro retry_loop_reaches) simp_all
    then show ?thesis
      using h(1,3) by (simp add: retry_loop_exhausted)
  qed
  have success: "outcome ?run = Inr v \<and> invocations ?run = k + 1 \<and> length (delays ?run) = k"
    if h: "k < maxRetries opts"
      "\<forall>j < k. \<exists>e'. fn j = Inl e' \<and> shouldRetry ?codes e'" "fn k = Inr v"
  proof -
    have "?run = retry_loop fn opts random k
        (if 0 < k then (case fn (k - 1) of Inl e \<Rightarrow> Some e | Inr v \<Rightarrow> None) else None)
        ([] @ map (jitter opts random) [0..<k])"
      unfolding retryWithAdvancedBackoff_def
      using h(1,2) by (intro retry_loop_reaches) simp_all
    then show ?thesis
      using h(1,3) by (simp add: retry_loop_stop_value)
  qed
  have nth: "\<forall>i < length (delays ?run).
      delays ?run ! i = min (maxDelay opts) (initialDelay opts * 2 ^ i) * (0.8 + random i * 0.4)"
    unfolding n by (simp add: jitter_def exponentialDelay_def)
  have factor: "\<forall>i < length (delays ?run).
      \<exists>f. 0.8 \<le> f \<and> f \<le> 1.2
        \<and> delays ?run ! i = min (maxDelay opts) (initialDelay opts * 2 ^ i) * f"
    if r: "\<forall>i. 0 \<le> random i \<and> random i < 1"
  proof (intro allI impI)
    fix i
    assume i: "i < length (delays ?run)"
    from r have "0 \<le> random i" "random i < 1" by simp_all
    from jitter_factor [OF this]
    have "0.8 \<le> 0.8 + random i * 0.4 \<and> 0.8 + random i * 0.4 \<le> 1.2"
      by simp
    with nth i show "\<exists>f. 0.8 \<le> f \<and> f \<le> 1.2
        \<and> delays ?run ! i = min (maxDelay opts) (initialDelay opts * 2 ^ i) * f"
      by blast
  qed
  from bound once exhausted success nth factor show ?thesis by blast
qed

text \<open>
  An HTTP 400 error is thrown at once; an HTTP 429 error is retried until the 5 attempts
  of the default options are used up; three HTTP 429 errors followed by a value give the
  value at the fourth invocation, after three delays.
\<close>

theorem retryWithAdvancedBackoff_attempts_witness:
  "retryWithAdvancedBackoff (\<lambda>k. Inl ex_bad_request :: js_error + nat) default_retry_options (\<lambda>i. 1 / 2)
     = \<lparr>outcome = Inl (Some ex_bad_request), invocations = 1, delays = []\<rparr>
   \<and> invocations (retryWithAdvancedBackoff (\<lambda>k. Inl ex_rate_limited :: js_error + nat)
                     default_retry_options (\<lambda>i. 1 / 2)) = 5
   \<and> outcome (retryWithAdvancedBackoff (\<lambda>k. Inl ex_rate_limited :: js_error + nat)
                 default_retry_options (\<lambda>i. 1 / 2)) = Inl (Some ex_rate_limited)
   \<and> outcome (retryWithAdvancedBackoff (\<lambda>k. if k < 3 then Inl ex_rate_limited else Inr (7 :: nat))
                 default_retry_options (\<lambda>i. 1 / 2)) = Inr 7
   \<and> invocations (retryWithAdvancedBackoff (\<lambda>k. if k < 3 then Inl ex_rate_limited else Inr (7 :: nat))
                     default_retry_options (\<lambda>i. 1 / 2)) = 4
   \<and> length (delays (retryWithAdvancedBackoff (\<lambda>k. if k < 3 then Inl ex_rate_limited else Inr (7 :: nat))
                        default_retry_options (\<lambda>i. 1 / 2))) = 3"
proof -
  let ?bad = "\<lambda>k :: nat. Inl ex_bad_request :: js_error + nat"
  let ?limited = "\<lambda>k :: nat. Inl ex_rate_limited :: js_error + nat"
  let ?third = "\<lambda>k :: nat. if k < 3 then Inl ex_rate_limited else Inr (7 :: nat)"
  let ?opts = default_retry_options
  let ?random = "\<lambda>i :: nat. 1 / 2 :: real"
  have no: "\<not> shouldRetry (retryStatusCodes ?opts) ex_bad_request"
    by code_simp
  have yes: "shouldRetry (retryStatusCodes ?opts) ex_rate_limited"
    by (simp add: shouldRetry_def default_retry_options_def ex_rate_limited_def)
  have m: "maxRetries ?opts = 5"
    by (simp add: default_retry_options_def)
  have a: "1 \<le> maxRetries ?opts \<and> ?bad 0 = Inl ex_bad_request
      \<and> \<not> shouldRetry (retryStatusCodes ?opts) ex_bad_request"
    using no m by simp
  have b: "1 \<le> maxRetries ?opts
      \<and> (\<forall>j < maxRetries ?opts. \<exists>e'. ?limited j = Inl e' \<and> shouldRetry (retryStatusCodes ?opts) e')
      \<and> ?limited (maxRetries ?opts - 1) = Inl ex_rate_limited"
    using yes m by simp
  have c: "3 < maxRetries ?opts
      \<and> (\<forall>j < 3. \<exists>e'. ?third j = Inl e' \<and> shouldRetry (retryStatusCodes ?opts) e')
      \<and> ?third 3 = Inr 7"
    using yes m by simp
  from retryWithAdvancedBackoff_attempts [of ?bad ?opts ?random ex_bad_request 0 0] a
  have "retryWithAdvancedBackoff ?bad ?opts ?random
     = \<lparr>outcome = Inl (Some ex_bad_request), invocations = 1, delays = []\<rparr>"
    by blast
  moreover
  from retryWithAdvancedBackoff_attempts [of ?limited ?opts ?random ex_rate_limited 0 0] b
  have "outcome (retryWithAdvancedBackoff ?limited ?opts ?random) = Inl (Some ex_rate_limited)
      \<and> invocations (retryWithAdvancedBackoff ?limited ?opts ?random) = maxRetries ?opts"
    by blast
  moreover
  from retryWithAdvancedBackoff_attempts [of ?third ?opts ?random ex_rate_limited 3 7] c
  have "outcome (retryWithAdvancedBackoff ?third ?opts ?random) = Inr 7
      \<and> invocations (retryWithAdvancedBackoff ?third ?opts ?random) = 3 + 1
      \<and> length (delays (retryWithAdvancedBackoff ?third ?opts ?random)) = 3"
    by blast
  ultimately show ?thesis using m by simp
qed

text \<open>
  With \<^verbatim>\<open>maxRetries = 0\<close> the loop body never runs: an operation that would fail
  with an error that is not retried is invoked 0 times, and the wrapper rejects with
  \<^verbatim>\<open>undefined\<close>. And an error that has no status and names no transient condition
  is retried when its message holds the digits of a status code: with the default
  options the operation is invoked 5 times.
\<close>

theorem retryWithAdvancedBackoff_zero_attempts_counterexample:
  "\<not> shouldRetry (retryStatusCodes default_retry_options) ex_bad_request
   \<and> ex_always_bad_request 0 = Inl ex_bad_request
   \<and> retryWithAdvancedBackoff ex_always_bad_request
       (default_retry_options\<lparr>maxRetries := 0\<rparr>) ex_half
     = \<lparr>outcome = Inl None, invocations = 0, delays = []\<rparr>
   \<and> status ex_offset_error = None
   \<and> response_status ex_offset_error = None
   \<and> message ex_offset_error = Some ''Invalid chunk at offset 5000''
   \<and> invocations (retryWithAdvancedBackoff ex_always_offset_error default_retry_options ex_half)
     = 5"
proof -
  have no: "\<not> shouldRetry (retryStatusCodes default_retry_options) ex_bad_request"
    by code_simp
  then have zero: "retryWithAdvancedBackoff ex_always_bad_request
       (default_retry_options\<lparr>maxRetries := 0\<rparr>) ex_half
     = \<lparr>outcome = Inl None, invocations = 0, delays = []\<rparr>"
    by (simp add: retryWithAdvancedBackoff_def retry_loop.simps)
  have yes: "shouldRetry (retryStatusCodes default_retry_options) ex_offset_error"
    by code_simp
  have m: "maxRetries default_retry_options = 5"
    by (simp add: default_retry_options_def)
  have "retryWithAdvancedBackoff ex_always_offset_error default_retry_options ex_half
      = retry_loop ex_always_offset_error default_retry_options ex_half
          (maxRetries default_retry_options)
          (if 0 < maxRetries default_retry_options
           then (case ex_always_offset_error (maxRetries default_retry_options - 1) of
                   Inl e \<Rightarrow> Some e | Inr v \<Rightarrow> None)
           else None)
          ([] @ map (jitter default_retry_options ex_half) [0..<maxRetries default_retry_options])"
    unfolding retryWithAdvancedBackoff_def
    using yes by (intro retry_loop_reaches) (simp_all add: ex_always_offset_error_def)
  then have five: "invocations (retryWithAdvancedBackoff ex_always_offset_error
      default_retry_options ex_half) = 5"
    by (simp add: retry_loop_exhausted m)
  from no zero five show ?thesis
    by (simp add: ex_always_bad_request_def ex_offset_error_def Error_def)
qed

subsection \<open>Embedding dimension\<close>

lemma pad_loop_replicate:
  "pad_loop xs = xs @ replicate (EXPECTED_DIMENSIONS - length xs) (JNumber 0)"
proof (induction xs rule: pad_loop.induct)
  case (1 padded)
  show ?case
  proof (cases "length padded < EXPECTED_DIMENSIONS")
    case True
    then have "EXPECTED_DIMENSIONS - length padded
        = Suc (EXPECTED_DIMENSIONS - length (padded @ [JNumber 0]))"
      by simp
    with True "1.IH" show ?thesis
      by (subst pad_loop.simps) (simp add: replicate_app_Cons_same)
  next
    case False
    then show ?thesis by (subst pad_loop.simps) simp
  qed
qed

lemma adjust_embArray_valid:
  "\<not> hasInvalidValues xs \<Longrightarrow>
     adjust_embArray xs = take 1536 xs @ replicate (1536 - length xs) (JNumber 0)"
  by (simp add: adjust_embArray_def pad_loop_replicate EXPECTED_DIMENSIONS_def)

lemma adjust_embArray_invalid:
  "hasInvalidValues xs \<Longrightarrow> adjust_embArray xs = zero_vector"
  by (simp add: adjust_embArray_def zero_vector_def EXPECTED_DIMENSIONS_def)

lemma length_adjust_embArray: "length (adjust_embArray xs) = 1536"
  by (cases "hasInvalidValues xs")
    (simp_all add: adjust_embArray_valid adjust_embArray_invalid zero_vector_def)

lemma length_processEmbedding: "length (processEmbedding e) = 1536"
  by (cases e) (simp_all add: processEmbedding_def length_adjust_embArray EXPECTED_DIMENSIONS_def)

lemma hasInvalidValues_zero_vector: "\<not> hasInvalidValues zero_vector"
  by (simp add: hasInvalidValues_def zero_vector_def list_ex_iff invalid_value_def)

lemma processEmbedding_zero_vector: "processEmbedding (JArray zero_vector) = zero_vector"
  using hasInvalidValues_zero_vector
  by (simp add: processEmbedding_def adjust_embArray_def zero_vector_def EXPECTED_DIMENSIONS_def)

lemma processEmbedding_Missing: "processEmbedding Missing = zero_vector"
  by (simp add: processEmbedding_def zero_vector_def EXPECTED_DIMENSIONS_def)

lemma length_align_embeddings: "length (align_embeddings n embeddings) = n"
  by (auto simp: align_embeddings_def split: option.splits)

lemma processEmbedding_align:
  "i < n \<Longrightarrow>
     processEmbedding (align_embeddings n embeddings ! i)
       = (case embeddings of
            None \<Rightarrow> zero_vector
          | Some es \<Rightarrow> if i < length es then processEmbedding (es ! i) else zero_vector)"
  by (auto simp: align_embeddings_def processEmbedding_zero_vector processEmbedding_Missing
        split: option.splits)

lemma processQueryEmbedding_Inr:
  "processQueryEmbedding e = Inr v \<Longrightarrow>
     \<exists>q. e = JArray q \<and> v = take 1536 q @ replicate (1536 - length q) (JNumber 0)
       \<and> \<not> hasInvalidValues v"
  by (cases e)
    (auto simp: processQueryEmbedding_def Let_def pad_loop_replicate EXPECTED_DIMENSIONS_def
      split: if_splits)

text \<open>
  Claim C1. Every row that \<^verbatim>\<open>storeDocumentChunks\<close> hands to the database carries an
  embedding of exactly 1536 components, one row per chunk: the input vector truncated to
  its first 1536 components when longer and padded with zeros when shorter, and the
  all-zero vector when the input vector is missing or has a component that is not a
  finite number. A search of \<^verbatim>\<open>performVectorSearch\<close> reaches the persistent tier only
  with a query vector adjusted in the same way, of exactly 1536 finite components; for a
  query of finite numbers it is the vector \<^verbatim>\<open>storeDocumentChunks\<close> would store.
\<close>

theorem embeddings_have_1536_components:
  "(storeDocumentChunks userId documentId chunks embeddings = Inr rows \<longrightarrow>
      length rows = length chunks
      \<and> (\<forall>i < length rows.
            chunk_index (rows ! i) = i
            \<and> length (row_embedding (rows ! i)) = 1536
            \<and> row_embedding (rows ! i)
                = (case embeddings of
                     None \<Rightarrow> replicate 1536 (JNumber 0)
                   | Some es \<Rightarrow> if i < length es then processEmbedding (es ! i)
                               else replicate 1536 (JNumber 0))))
   \<and> length (processEmbedding e) = 1536
   \<and> processEmbedding Missing = replicate 1536 (JNumber 0)
   \<and> processEmbedding (JObject xs) = processEmbedding (JArray xs)
   \<and> (hasInvalidValues xs \<longrightarrow> processEmbedding (JArray xs) = replicate 1536 (JNumber 0))
   \<and> (\<not> hasInvalidValues xs \<longrightarrow>
        processEmbedding (JArray xs) = take 1536 xs @ replicate (1536 - length xs) (JNumber 0)
        \<and> processQueryEmbedding (JArray xs) = Inr (processEmbedding (JArray xs)))
   \<and> (performVectorSearch searcher backend q = Inr found \<longrightarrow>
        (\<exists>qs v. q = JArray qs
           \<and> v = take 1536 qs @ replicate (1536 - length qs) (JNumber 0)
           \<and> length v = 1536
           \<and> \<not> hasInvalidValues v
           \<and> found = run_vector_search backend v qs))"
proof -
  have store: "length rows = length chunks
      \<and> (\<forall>i < length rows.
            chunk_index (rows ! i) = i
            \<and> length (row_embedding (rows ! i)) = 1536
            \<and> row_embedding (rows ! i)
                = (case embeddings of
                     None \<Rightarrow> replicate 1536 (JNumber 0)
                   | Some es \<Rightarrow> if i < length es then processEmbedding (es ! i)
                               else replicate 1536 (JNumber 0)))"
    if h: "storeDocumentChunks userId documentId chunks embeddings = Inr rows"
  proof (cases "chunks = []")
    case True
    with h show ?thesis
      by (auto simp: storeDocumentChunks_def split: option.splits)
  next
    case False
    from h False obtain uid where
      rows: "rows = map (\<lambda>index. \<lparr>document_id = documentId, user_id = uid,
                                   chunk_index = index, row_chunk = chunks ! index,
                                   row_embedding =
                                     map processEmbedding
                                       (align_embeddings (length chunks) embeddings) ! index\<rparr>)
                      [0..<length chunks]"
      by (auto simp: storeDocumentChunks_def Let_def split: option.splits)
    have len: "length rows = length chunks"
      by (simp add: rows)
    have "chunk_index (rows ! i) = i
          \<and> length (row_embedding (rows ! i)) = 1536
          \<and> row_embedding (rows ! i)
                = (case embeddings of
                     None \<Rightarrow> replicate 1536 (JNumber 0)
                   | Some es \<Rightarrow> if i < length es then processEmbedding (es ! i)
                               else replicate 1536 (JNumber 0))"
      if i: "i < length chunks" for i
    proof -
      have r: "row_embedding (rows ! i)
          = processEmbedding (align_embeddings (length chunks) embeddings ! i)"
        using i by (simp add: rows length_align_embeddings)
      have "processEmbedding (align_embeddings (length chunks) embeddings ! i)
          = (case embeddings of
                     None \<Rightarrow> replicate 1536 (JNumber 0)
                   | Some es \<Rightarrow> if i < length es then processEmbedding (es ! i)
                               else replicate 1536 (JNumber 0))"
        using processEmbedding_align [OF i, of embeddings]
        by (simp add: zero_vector_def split: option.splits)
      then have e: "row_embedding (rows ! i)
          = (case embeddings of
                     None \<Rightarrow> replicate 1536 (JNumber 0)
                   | Some es \<Rightarrow> if i < length es then processEmbedding (es ! i)
                               else replicate 1536 (JNumber 0))"
        using r by simp
      have l: "length (row_embedding (rows ! i)) = 1536"
        unfolding r by (rule length_processEmbedding)
      have c: "chunk_index (rows ! i) = i"
        using i by (simp add: rows)
      from c l e show ?thesis by blast
    qed
    then have "\<forall>i < length rows.
            chunk_index (rows ! i) = i
            \<and> length (row_embedding (rows ! i)) = 1536
            \<and> row_embedding (rows ! i)
                = (case embeddings of
                     None \<Rightarrow> replicate 1536 (JNumber 0)
                   | Some es \<Rightarrow> if i < length es then processEmbedding (es ! i)
                               else replicate 1536 (JNumber 0))"
      unfolding len by blast
    with len show ?thesis by (rule conjI)
  qed
  have valid: "processEmbedding (JArray xs) = take 1536 xs @ replicate (1536 - length xs) (JNumber 0)
        \<and> processQueryEmbedding (JArray xs) = Inr (processEmbedding (JArray xs))"
    if v: "\<not> hasInvalidValues xs"
  proof -
    have p: "processEmbedding (JArray xs) = take 1536 xs @ replicate (1536 - length xs) (JNumber 0)"
      using v by (simp add: processEmbedding_def adjust_embArray_valid)
    have "\<not> hasInvalidValues (take 1536 xs @ replicate (1536 - length xs) (JNumber 0))"
      using v by (auto simp: hasInvalidValues_def list_ex_iff invalid_value_def dest: in_set_takeD)
    then have "processQueryEmbedding (JArray xs)
        = Inr (take 1536 xs @ replicate (1536 - length xs) (JNumber 0))"
      using v
      by (auto simp: processQueryEmbedding_def Let_def pad_loop_replicate EXPECTED_DIMENSIONS_def)
    with p show ?thesis by simp
  qed
  have search: "\<exists>qs v. q = JArray qs
           \<and> v = take 1536 qs @ replicate (1536 - length qs) (JNumber 0)
           \<and> length v = 1536
           \<and> \<not> hasInvalidValues v
           \<and> found = run_vector_search backend v qs"
    if h: "performVectorSearch searcher backend q = Inr found"
  proof -
    from h obtain v where v: "processQueryEmbedding q = Inr v"
      and f: "found = run_vector_search backend v (case q of JArray q \<Rightarrow> q | _ \<Rightarrow> [])"
      by (auto simp: performVectorSearch_def split: option.splits sum.splits)
    from processQueryEmbedding_Inr [OF v] obtain qs where
      "q = JArray qs" "v = take 1536 qs @ replicate (1536 - length qs) (JNumber 0)"
      "\<not> hasInvalidValues v"
      by blast
    with f show ?thesis by auto
  qed
  have inv: "hasInvalidValues xs \<longrightarrow> processEmbedding (JArray xs) = replicate 1536 (JNumber 0)"
    by (simp add: processEmbedding_def adjust_embArray_invalid zero_vector_def)
  have obj: "processEmbedding (JObject xs) = processEmbedding (JArray xs)"
    by (simp add: processEmbedding_def)
  have miss: "processEmbedding Missing = replicate 1536 (JNumber 0)"
    by (simp add: processEmbedding_Missing zero_vector_def)
  from store length_processEmbedding [of e] miss obj inv valid search show ?thesis
    by blast
qed


text \<open>
  Three chunks with two embeddings, one of two components and one holding
  \<^verbatim>\<open>NaN\<close>; and a query embedding of one component.
\<close>

theorem embeddings_have_1536_components_witness:
  "(\<exists>rows. storeDocumentChunks (Some ''u'') ''d'' [''a'', ''b'', ''c'']
              (Some [JArray [JNumber 1, JNumber 2], JArray [JNaN]]) = Inr rows
      \<and> length rows = 3
      \<and> row_embedding (rows ! 0) = [JNumber 1, JNumber 2] @ replicate 1534 (JNumber 0)
      \<and> row_embedding (rows ! 1) = replicate 1536 (JNumber 0)
      \<and> row_embedding (rows ! 2) = replicate 1536 (JNumber 0))
   \<and> performVectorSearch (Some ''u'') ex_backend (JArray [JNumber 3]) = Inr [1536]
   \<and> processQueryEmbedding (JArray [JNumber 3]) = Inr ([JNumber 3] @ replicate 1535 (JNumber 0))"
proof -
  let ?es = "[JArray [JNumber 1, JNumber 2], JArray [JNaN]]"
  let ?chunks = "[''a'', ''b'', ''c'']"
  let ?q = "JArray [JNumber 3]"
  obtain rows where rows:
    "storeDocumentChunks (Some ''u'') ''d'' ?chunks (Some ?es) = Inr rows"
    by (simp add: storeDocumentChunks_def Let_def)
  have valid3: "\<not> hasInvalidValues [JNumber 3]"
    and valid12: "\<not> hasInvalidValues [JNumber 1, JNumber 2]"
    and nan: "hasInvalidValues [JNaN]"
    by (simp_all add: hasInvalidValues_def invalid_value_def)
  have pq: "processQueryEmbedding ?q = Inr (take 1536 [JNumber 3] @ replicate (1536 - length [JNumber 3]) (JNumber 0))"
    using embeddings_have_1536_components
      [of None "''d''" "[] :: string list" None "[]" Missing "[JNumber 3]" None ex_backend Missing "[]"]
      valid3
    by simp
  then have found: "performVectorSearch (Some ''u'') ex_backend ?q = Inr [1536]"
    by (simp add: performVectorSearch_def run_vector_search_def ex_backend_def)
  note inst = embeddings_have_1536_components
    [of "Some ''u''" "''d''" ?chunks "Some ?es" rows Missing "[JNumber 1, JNumber 2]"
        "Some ''u''" ex_backend ?q "[1536]"]
  from inst rows have len: "length rows = length ?chunks"
    and each: "\<forall>i < length rows.
            chunk_index (rows ! i) = i
            \<and> length (row_embedding (rows ! i)) = 1536
            \<and> row_embedding (rows ! i)
                = (case Some ?es of
                     None \<Rightarrow> replicate 1536 (JNumber 0)
                   | Some es \<Rightarrow> if i < length es then processEmbedding (es ! i)
                               else replicate 1536 (JNumber 0))"
    by blast+
  from inst valid12 have p0: "processEmbedding (JArray [JNumber 1, JNumber 2])
      = take 1536 [JNumber 1, JNumber 2] @ replicate (1536 - length [JNumber 1, JNumber 2]) (JNumber 0)"
    by blast
  have p1: "processEmbedding (JArray [JNaN]) = replicate 1536 (JNumber 0)"
    using embeddings_have_1536_components
      [of None "''d''" "[] :: string list" None "[]" Missing "[JNaN]" None ex_backend Missing "[]"]
      nan
    by blast
  from len have i: "0 < length rows" "1 < length rows" "2 < length rows"
    by simp_all
  from each i(1) have "row_embedding (rows ! 0) = processEmbedding (?es ! 0)"
    by simp
  with p0 have r0: "row_embedding (rows ! 0) = [JNumber 1, JNumber 2] @ replicate 1534 (JNumber 0)"
    by simp
  from each i(2) have "row_embedding (rows ! 1) = processEmbedding (?es ! 1)"
    by simp
  with p1 have r1: "row_embedding (rows ! 1) = replicate 1536 (JNumber 0)"
    by simp
  from each i(3) have r2: "row_embedding (rows ! 2) = replicate 1536 (JNumber 0)"
    by simp
  from rows len r0 r1 r2 found pq show ?thesis
    by auto
qed

subsection \<open>Batch embedding\<close>

lemma retry_loop_outcome_Inr:
  "outcome (retry_loop fn opts rnd a le w) = Inr v \<Longrightarrow>
     \<exists>k. a \<le> k \<and> k < maxRetries opts \<and> fn k = Inr v"
proof (induction "maxRetries opts - a" arbitrary: a le w)
  case 0
  then have "maxRetries opts \<le> a" by simp
  with "0.prems" show ?case by (simp add: retry_loop_exhausted)
next
  case (Suc n)
  then have am: "a < maxRetries opts" by simp
  show ?case
  proof (cases "fn a")
    case (Inr u)
    with am Suc.prems have "u = v" by (simp add: retry_loop_stop_value)
    with Inr am show ?thesis by auto
  next
    case (Inl e)
    show ?thesis
    proof (cases "shouldRetry (retryStatusCodes opts) e")
      case False
      with am Inl Suc.prems show ?thesis by (simp add: retry_loop_stop_error)
    next
      case True
      have n: "n = maxRetries opts - Suc a" using Suc.hyps(2) by simp
      have "outcome (retry_loop fn opts rnd (Suc a) (Some e) (w @ [jitter opts rnd a])) = Inr v"
        using Suc.prems retry_loop_retriable_step [of a opts fn e rnd le w] am Inl True by simp
      from Suc.hyps(1) [OF n this] show ?thesis
        using Suc_leD by blast
    qed
  qed
qed

lemma promise_all_Inr: "promise_all (map (\<lambda>d. Inr (f d)) xs) = Inr (map f xs)"
  by (induction xs) simp_all

lemma embed_operation_Inr:
  "embed_operation env ds d k = Inr r \<Longrightarrow>
     fst r = indexOf ds d \<and> embedQuery env d (pageContentOf env d) k = Inr (snd r)"
  by (auto simp: embed_operation_def split: sum.splits)

lemma embed_with_fallback_cases:
  "(\<exists>k<5. embed_operation env ds d k = Inr (embed_with_fallback env ds d))
   \<or> embed_with_fallback env ds d = (indexOf ds d, JArray zero_vector)"
proof (cases "outcome (retryWithAdvancedBackoff (embed_operation env ds d)
                batch_retry_options (random_of env d))")
  case (Inl err)
  then show ?thesis by (simp add: embed_with_fallback_def)
next
  case (Inr r)
  then have r: "embed_with_fallback env ds d = r"
    by (simp add: embed_with_fallback_def)
  from Inr have "outcome (retry_loop (embed_operation env ds d) batch_retry_options
      (random_of env d) 0 None []) = Inr r"
    by (simp add: retryWithAdvancedBackoff_def)
  from retry_loop_outcome_Inr [OF this] obtain k where
    k: "k < maxRetries batch_retry_options" "embed_operation env ds d k = Inr r"
    by blast
  from k(1) have "k < 5" by (simp add: batch_retry_options_def)
  with k(2) r show ?thesis by blast
qed

lemma embed_with_fallback_index: "fst (embed_with_fallback env ds d) = indexOf ds d"
  using embed_with_fallback_cases [of env ds d] embed_operation_Inr [of env ds d]
  by (metis fst_conv)

lemma embed_with_fallback_source:
  "snd (embed_with_fallback env ds d) = JArray zero_vector
   \<or> (\<exists>k<5. embedQuery env d (pageContentOf env d) k = Inr (snd (embed_with_fallback env ds d)))"
  using embed_with_fallback_cases [of env ds d] embed_operation_Inr [of env ds d]
  by (metis snd_conv)

lemma embeddings_batches_loop_map:
  "embeddings_batches_loop env chunks i acc = acc @ map (embed_text_or_zero env) (drop i chunks)"
proof (induction env chunks i acc rule: embeddings_batches_loop.induct)
  case (1 env chunks i allEmbeddings)
  show ?case
  proof (cases "i < length chunks")
    case True
    have split: "take 3 (drop i chunks) @ drop (i + 3) chunks = drop i chunks"
      by (metis add.commute append_take_drop_id drop_drop)
    have "embeddings_batches_loop env chunks i allEmbeddings
        = embeddings_batches_loop env chunks (i + 3)
            (allEmbeddings @ map (embed_text_or_zero env) (take 3 (drop i chunks)))"
      using True by (subst embeddings_batches_loop.simps) (simp add: Let_def)
    also have "\<dots> = (allEmbeddings @ map (embed_text_or_zero env) (take 3 (drop i chunks)))
        @ map (embed_text_or_zero env) (drop (i + 3) chunks)"
      using True by (intro "1.IH") simp_all
    also have "\<dots> = allEmbeddings @ map (embed_text_or_zero env) (drop i chunks)"
      using split by (metis append.assoc map_append)
    finally show ?thesis .
  next
    case False
    then show ?thesis by (subst embeddings_batches_loop.simps) simp
  qed
qed

lemma processEmbeddingsInBatches_map:
  "processEmbeddingsInBatches env chunks = map (embed_text_or_zero env) chunks"
  by (simp add: processEmbeddingsInBatches_def embeddings_batches_loop_map)

lemma embed_text_or_zero_source:
  "embed_text_or_zero env d = JArray zero_vector
   \<or> (\<exists>k<5. embedQuery env d (pageContentOf env d) k = Inr (embed_text_or_zero env d))"
proof (cases "outcome (retryWithAdvancedBackoff (embedQuery env d (pageContentOf env d))
                default_retry_options (random_of env d))")
  case (Inl err)
  then show ?thesis by (simp add: embed_text_or_zero_def)
next
  case (Inr e)
  then have r: "embed_text_or_zero env d = e"
    by (simp add: embed_text_or_zero_def)
  from Inr have "outcome (retry_loop (embedQuery env d (pageContentOf env d)) default_retry_options
      (random_of env d) 0 None []) = Inr e"
    by (simp add: retryWithAdvancedBackoff_def)
  from retry_loop_outcome_Inr [OF this] obtain k where
    k: "k < maxRetries default_retry_options" "embedQuery env d (pageContentOf env d) k = Inr e"
    by blast
  from k(1) have "k < 5" by (simp add: default_retry_options_def)
  with k(2) r show ?thesis by blast
qed

text \<open>
  How the retry wrapper settles, read off the operation's invocations.
\<close>

lemma retry_outcome_success:
  assumes k: "k < maxRetries opts"
    and before: "\<forall>j<k. \<exists>e. fn j = Inl e \<and> shouldRetry (retryStatusCodes opts) e"
    and at: "fn k = Inr v"
  shows "outcome (retryWithAdvancedBackoff fn opts rnd) = Inr v"
proof -
  have "retry_loop fn opts rnd 0 None []
      = retry_loop fn opts rnd k
          (if 0 < k then (case fn (k - 1) of Inl e \<Rightarrow> Some e | Inr v \<Rightarrow> None) else None)
          ([] @ map (jitter opts rnd) [0..<k])"
    using k before by (intro retry_loop_reaches) simp_all
  then show ?thesis
    unfolding retryWithAdvancedBackoff_def
    using retry_loop_stop_value [of k opts fn v] k at by simp
qed

lemma retry_outcome_not_retried:
  assumes k: "k < maxRetries opts"
    and before: "\<forall>j<k. \<exists>e. fn j = Inl e \<and> shouldRetry (retryStatusCodes opts) e"
    and at: "fn k = Inl err" and no: "\<not> shouldRetry (retryStatusCodes opts) err"
  shows "outcome (retryWithAdvancedBackoff fn opts rnd) = Inl (Some err)"
proof -
  have "retry_loop fn opts rnd 0 None []
      = retry_loop fn opts rnd k
          (if 0 < k then (case fn (k - 1) of Inl e \<Rightarrow> Some e | Inr v \<Rightarrow> None) else None)
          ([] @ map (jitter opts rnd) [0..<k])"
    using k before by (intro retry_loop_reaches) simp_all
  then show ?thesis
    unfolding retryWithAdvancedBackoff_def
    using retry_loop_stop_error [of k opts fn err] k at no by simp
qed

lemma retry_outcome_exhausted:
  assumes "\<forall>j<maxRetries opts. \<exists>e. fn j = Inl e \<and> shouldRetry (retryStatusCodes opts) e"
  shows "\<exists>err. outcome (retryWithAdvancedBackoff fn opts rnd) = Inl err"
proof -
  have "retry_loop fn opts rnd 0 None []
      = retry_loop fn opts rnd (maxRetries opts)
          (if 0 < maxRetries opts
           then (case fn (maxRetries opts - 1) of Inl e \<Rightarrow> Some e | Inr v \<Rightarrow> None) else None)
          ([] @ map (jitter opts rnd) [0..<maxRetries opts])"
    using assms by (intro retry_loop_reaches) simp_all
  then show ?thesis
    unfolding retryWithAdvancedBackoff_def
    by (simp add: retry_loop_exhausted)
qed

text \<open>
  What the guarded call stores for a chunk \<open>d\<close>, read off the calls to the provider.
\<close>

lemma embed_with_fallback_determined:
  fixes env ds d
  defines "q \<equiv> embedQuery env d (pageContentOf env d)"
  defines "codes \<equiv> [429, 500, 502, 503, 504]"
  shows "(\<forall>k e. k < 5 \<and> (\<forall>j<k. \<exists>err. q j = Inl err \<and> shouldRetry codes err) \<and> q k = Inr e
            \<longrightarrow> snd (embed_with_fallback env ds d) = e)
       \<and> (\<forall>k err. k < 5 \<and> (\<forall>j<k. \<exists>err'. q j = Inl err' \<and> shouldRetry codes err') \<and> q k = Inl err
              \<and> \<not> shouldRetry codes err
            \<longrightarrow> snd (embed_with_fallback env ds d) = JArray zero_vector)
       \<and> ((\<forall>j<5. \<exists>err. q j = Inl err \<and> shouldRetry codes err)
            \<longrightarrow> snd (embed_with_fallback env ds d) = JArray zero_vector)"
proof -
  let ?fn = "embed_operation env ds d"
  let ?opts = batch_retry_options
  have m: "maxRetries ?opts = 5" and c: "retryStatusCodes ?opts = codes"
    by (simp_all add: batch_retry_options_def codes_def)
  have err: "?fn j = Inl e \<longleftrightarrow> q j = Inl e" for j e
    by (auto simp: embed_operation_def q_def split: sum.splits)
  have val: "q j = Inr e \<Longrightarrow> ?fn j = Inr (indexOf ds d, e)" for j e
    by (simp add: embed_operation_def q_def)
  have a: "snd (embed_with_fallback env ds d) = e"
    if "k < 5" "\<forall>j<k. \<exists>err. q j = Inl err \<and> shouldRetry codes err" "q k = Inr e" for k e
  proof -
    have "outcome (retryWithAdvancedBackoff ?fn ?opts (random_of env d)) = Inr (indexOf ds d, e)"
      using that by (intro retry_outcome_success [of k]) (simp_all add: m c err val)
    then show ?thesis by (simp add: embed_with_fallback_def)
  qed
  have b: "snd (embed_with_fallback env ds d) = JArray zero_vector"
    if "k < 5" "\<forall>j<k. \<exists>err'. q j = Inl err' \<and> shouldRetry codes err'" "q k = Inl err"
      "\<not> shouldRetry codes err" for k err
  proof -
    have "outcome (retryWithAdvancedBackoff ?fn ?opts (random_of env d)) = Inl (Some err)"
      using that by (intro retry_outcome_not_retried [of k]) (simp_all add: m c err)
    then show ?thesis by (simp add: embed_with_fallback_def)
  qed
  have e: "snd (embed_with_fallback env ds d) = JArray zero_vector"
    if "\<forall>j<5. \<exists>err. q j = Inl err \<and> shouldRetry codes err"
  proof -
    have "\<exists>err. outcome (retryWithAdvancedBackoff ?fn ?opts (random_of env d)) = Inl err"
      using that by (intro retry_outcome_exhausted) (simp add: m c err)
    then show ?thesis by (auto simp: embed_with_fallback_def)
  qed
  from a b e show ?thesis by blast
qed

lemma embed_text_or_zero_determined:
  fixes env d
  defines "q \<equiv> embedQuery env d (pageContentOf env d)"
  defines "codes \<equiv> [429, 500, 502, 503, 504]"
  shows "(\<forall>k e. k < 5 \<and> (\<forall>j<k. \<exists>err. q j = Inl err \<and> shouldRetry codes err) \<and> q k = Inr e
            \<longrightarrow> embed_text_or_zero env d = e)
       \<and> (\<forall>k err. k < 5 \<and> (\<forall>j<k. \<exists>err'. q j = Inl err' \<and> shouldRetry codes err') \<and> q k = Inl err
              \<and> \<not> shouldRetry codes err
            \<longrightarrow> embed_text_or_zero env d = JArray zero_vector)
       \<and> ((\<forall>j<5. \<exists>err. q j = Inl err \<and> shouldRetry codes err)
            \<longrightarrow> embed_text_or_zero env d = JArray zero_vector)"
proof -
  let ?opts = default_retry_options
  have m: "maxRetries ?opts = 5" and c: "retryStatusCodes ?opts = codes"
    by (simp_all add: default_retry_options_def codes_def)
  have a: "embed_text_or_zero env d = e"
    if "k < 5" "\<forall>j<k. \<exists>err. q j = Inl err \<and> shouldRetry codes err" "q k = Inr e" for k e
  proof -
    have "outcome (retryWithAdvancedBackoff q ?opts (random_of env d)) = Inr e"
      using that by (intro retry_outcome_success [of k]) (simp_all add: m c)
    then show ?thesis by (simp add: embed_text_or_zero_def q_def)
  qed
  have b: "embed_text_or_zero env d = JArray zero_vector"
    if "k < 5" "\<forall>j<k. \<exists>err'. q j = Inl err' \<and> shouldRetry codes err'" "q k = Inl err"
      "\<not> shouldRetry codes err" for k err
  proof -
    have "outcome (retryWithAdvancedBackoff q ?opts (random_of env d)) = Inl (Some err)"
      using that by (intro retry_outcome_not_retried [of k]) (simp_all add: m c)
    then show ?thesis by (simp add: embed_text_or_zero_def q_def)
  qed
  have e: "embed_text_or_zero env d = JArray zero_vector"
    if "\<forall>j<5. \<exists>err. q j = Inl err \<and> shouldRetry codes err"
  proof -
    have "\<exists>err. outcome (retryWithAdvancedBackoff q ?opts (random_of env d)) = Inl err"
      using that by (intro retry_outcome_exhausted) (simp add: m c)
    then show ?thesis by (auto simp: embed_text_or_zero_def q_def)
  qed
  from a b e show ?thesis by blast
qed

lemma indexOf_from_found:
  "indexOf_from n ds d = int k \<Longrightarrow> n \<le> k \<and> k - n < length ds \<and> ds ! (k - n) = d"
proof (induction ds arbitrary: n)
  case Nil
  then show ?case by simp
next
  case (Cons y ys)
  show ?case
  proof (cases "y = d")
    case True
    with Cons.prems show ?thesis by simp
  next
    case False
    with Cons.prems have "indexOf_from (n + 1) ys d = int k" by simp
    from Cons.IH [OF this] have "n + 1 \<le> k" "k - (n + 1) < length ys" "ys ! (k - (n + 1)) = d"
      by simp_all
    then show ?thesis by (simp add: nth_Cons' less_diff_conv)
  qed
qed

lemma indexOf_from_mem: "d \<in> set ds \<Longrightarrow> \<exists>k. indexOf_from n ds d = int k"
  by (induction ds arbitrary: n) auto

lemma indexOf_inj:
  assumes "d \<in> set ds" and "indexOf ds d' = indexOf ds d"
  shows "d' = d"
proof -
  from indexOf_from_mem [OF assms(1), of 0] obtain k where k: "indexOf ds d = int k"
    by (auto simp: indexOf_def)
  from indexOf_from_found [of 0 ds d k] k have "ds ! k = d"
    by (simp add: indexOf_def)
  moreover from indexOf_from_found [of 0 ds d' k] k assms(2) have "ds ! k = d'"
    by (simp add: indexOf_def)
  ultimately show ?thesis by simp
qed

lemma fold_store_other:
  "key \<notin> fst ` f ` set xs \<Longrightarrow>
     fold (\<lambda>(index, embedding) m. m(index \<mapsto> embedding)) (map f xs) m key = m key"
  by (induction xs arbitrary: m) (auto simp: case_prod_beta)

lemma fold_store_key:
  "x \<in> set xs \<Longrightarrow> \<forall>y \<in> set xs. fst (f y) = fst (f x) \<longrightarrow> snd (f y) = snd (f x) \<Longrightarrow>
     fold (\<lambda>(index, embedding) m. m(index \<mapsto> embedding)) (map f xs) m (fst (f x))
       = Some (snd (f x))"
proof (induction xs rule: rev_induct)
  case Nil
  then show ?case by simp
next
  case (snoc y ys)
  have step: "fold (\<lambda>(index, embedding) m. m(index \<mapsto> embedding)) (map f (ys @ [y])) m
      = (fold (\<lambda>(index, embedding) m. m(index \<mapsto> embedding)) (map f ys) m)
          (fst (f y) \<mapsto> snd (f y))"
    by (simp add: case_prod_beta)
  show ?case
  proof (cases "fst (f y) = fst (f x)")
    case True
    with snoc.prems(2) have "snd (f y) = snd (f x)" by simp
    with True show ?thesis unfolding step by simp
  next
    case False
    with snoc.prems(1) have "x \<in> set ys" by auto
    moreover have "\<forall>y \<in> set ys. fst (f y) = fst (f x) \<longrightarrow> snd (f y) = snd (f x)"
      using snoc.prems(2) by simp
    ultimately have "fold (\<lambda>(index, embedding) m. m(index \<mapsto> embedding)) (map f ys) m (fst (f x))
       = Some (snd (f x))"
      by (rule snoc.IH)
    with False show ?thesis unfolding step by simp
  qed
qed

text \<open>
  One run of the loop body on a non-empty queue takes a non-empty batch and stores what
  the guarded calls return for it; \<^verbatim>\<open>Promise.all\<close> is fulfilled.
\<close>

lemma batch_iteration_stores:
  assumes init: "1 \<le> initialBatchSize cfg"
    and inv: "(consecutiveFailures st = 0 \<and> 1 \<le> currentBatchSize st)
           \<or> (0 < consecutiveFailures st \<and> 1 \<le> minBatchSize cfg)"
    and ne: "queue st \<noteq> []"
  shows "\<exists>b. 1 \<le> b \<and> b \<le> length (queue st)
      \<and> queue (batch_iteration env cfg ds st) = drop b (queue st)
      \<and> consecutiveFailures (batch_iteration env cfg ds st) = 0
      \<and> 1 \<le> currentBatchSize (batch_iteration env cfg ds st)
      \<and> results (batch_iteration env cfg ds st)
          = fold (\<lambda>(index, embedding) m. m(index \<mapsto> embedding))
              (map (embed_with_fallback env ds) (take b (queue st))) (results st)"
proof -
  define st1 where "st1 = adjust_batch_size cfg st"
  define b where "b = min (currentBatchSize st1) (length (queue st1))"
  have s1: "queue st1 = queue st" "results st1 = results st"
    by (simp_all add: st1_def adjust_batch_size_def)
  have c1: "1 \<le> currentBatchSize st1"
    using inv init by (auto simp: st1_def adjust_batch_size_def)
  have b1: "1 \<le> b" "b \<le> length (queue st)"
    using c1 ne by (simp_all add: b_def s1 Suc_le_eq)
  have it: "batch_iteration env cfg ds st
      = settle_batch cfg (st1\<lparr>queue := drop b (queue st1)\<rparr>) (take b (queue st1))
          (Inr (map (embed_with_fallback env ds) (take b (queue st1))))"
    by (simp add: batch_iteration_def Let_def st1_def [symmetric] b_def [symmetric]
          promise_all_Inr)
  have "queue (batch_iteration env cfg ds st) = drop b (queue st)"
    "consecutiveFailures (batch_iteration env cfg ds st) = 0"
    "1 \<le> currentBatchSize (batch_iteration env cfg ds st)"
    "results (batch_iteration env cfg ds st)
          = fold (\<lambda>(index, embedding) m. m(index \<mapsto> embedding))
              (map (embed_with_fallback env ds) (take b (queue st))) (results st)"
    unfolding it using c1 by (simp_all add: settle_batch_def s1)
  with b1 show ?thesis by blast
qed

text \<open>
  From every state whose batch size will be at least 1, the loop ends with an empty queue
  and has stored, for every chunk that was in the queue, what its guarded call returns;
  the other stored results are kept.
\<close>

lemma batch_loop_drains:
  assumes init: "1 \<le> initialBatchSize cfg"
  shows "set (queue st) \<subseteq> set ds \<Longrightarrow>
     (consecutiveFailures st = 0 \<and> 1 \<le> currentBatchSize st)
       \<or> (0 < consecutiveFailures st \<and> 1 \<le> minBatchSize cfg) \<Longrightarrow>
     \<exists>st'. batch_loop env cfg ds st = Some st' \<and> queue st' = []
        \<and> (\<forall>d \<in> set (queue st).
              results st' (indexOf ds d) = Some (snd (embed_with_fallback env ds d)))
        \<and> (\<forall>key. key \<notin> indexOf ds ` set (queue st) \<longrightarrow> results st' key = results st key)"
proof (induction "length (queue st)" arbitrary: st rule: less_induct)
  case less
  let ?f = "embed_with_fallback env ds"
  show ?case
  proof (cases "queue st = []")
    case True
    then have "batch_loop env cfg ds st = Some st"
      by (subst batch_loop.simps) simp
    with True show ?thesis by simp
  next
    case False
    let ?it = "batch_iteration env cfg ds st"
    from batch_iteration_stores [OF init less.prems(2) False, of env ds]
    obtain b where b: "1 \<le> b" "b \<le> length (queue st)"
      and qu: "queue ?it = drop b (queue st)"
      and cf: "consecutiveFailures ?it = 0" and cb: "1 \<le> currentBatchSize ?it"
      and rs: "results ?it = fold (\<lambda>(index, embedding) m. m(index \<mapsto> embedding))
              (map ?f (take b (queue st))) (results st)"
      by blast
    have shorter: "length (queue ?it) < length (queue st)"
      using b False by (simp add: qu)
    have sub: "set (queue ?it) \<subseteq> set ds"
      using less.prems(1) set_drop_subset [of b "queue st"] by (auto simp: qu)
    from less.hyps [OF shorter sub] cf cb
    obtain st' where st': "batch_loop env cfg ds ?it = Some st'" "queue st' = []"
      and later: "\<forall>d \<in> set (queue ?it). results st' (indexOf ds d) = Some (snd (?f d))"
      and kept: "\<forall>key. key \<notin> indexOf ds ` set (queue ?it) \<longrightarrow> results st' key = results ?it key"
      by blast
    have loop: "batch_loop env cfg ds st = Some st'"
      using False st'(1) by (subst batch_loop.simps) simp
    have key: "fst (?f d) = indexOf ds d" for d
      by (rule embed_with_fallback_index)
    have stored: "results st' (indexOf ds d) = Some (snd (?f d))" if d: "d \<in> set (queue st)" for d
    proof (cases "indexOf ds d \<in> indexOf ds ` set (queue ?it)")
      case True
      then obtain d' where d': "d' \<in> set (queue ?it)" "indexOf ds d' = indexOf ds d"
        by auto
      from d less.prems(1) have "d \<in> set ds" by auto
      from indexOf_inj [OF this d'(2)] d'(1) have "d \<in> set (queue ?it)" by simp
      with later show ?thesis by simp
    next
      case False
      then have nd: "d \<notin> set (drop b (queue st))" by (auto simp: qu)
      from d have "d \<in> set (take b (queue st)) \<union> set (drop b (queue st))"
        by (metis append_take_drop_id set_append)
      with nd have t: "d \<in> set (take b (queue st))" by simp
      have same: "\<forall>y \<in> set (take b (queue st)). fst (?f y) = fst (?f d) \<longrightarrow> snd (?f y) = snd (?f d)"
      proof (intro ballI impI)
        fix y assume "y \<in> set (take b (queue st))" and e: "fst (?f y) = fst (?f d)"
        from d less.prems(1) have "d \<in> set ds" by auto
        from indexOf_inj [OF this, of y] e have "y = d" by (simp add: key)
        then show "snd (?f y) = snd (?f d)" by simp
      qed
      from fold_store_key [of d "take b (queue st)" ?f "results st", OF t same]
      have "results ?it (indexOf ds d) = Some (snd (?f d))"
        by (simp add: rs key)
      with kept False show ?thesis by simp
    qed
    have other: "results st' key = results st key" if k: "key \<notin> indexOf ds ` set (queue st)" for key
    proof -
      have "set (queue ?it) \<subseteq> set (queue st)"
        using set_drop_subset [of b "queue st"] by (simp add: qu)
      with k have "key \<notin> indexOf ds ` set (queue ?it)" by auto
      with kept have 1: "results st' key = results ?it key" by simp
      have "set (take b (queue st)) \<subseteq> set (queue st)"
        by (rule set_take_subset)
      with k have "key \<notin> fst ` ?f ` set (take b (queue st))"
        by (auto simp: key)
      from fold_store_other [OF this] have "results ?it key = results st key"
        by (simp add: rs)
      with 1 show ?thesis by simp
    qed
    from loop st'(2) stored other show ?thesis by blast
  qed
qed

lemma indexOf_from_first:
  "indexOf_from n ds d = int k \<Longrightarrow> \<forall>j. n \<le> j \<and> j < k \<longrightarrow> ds ! (j - n) \<noteq> d"
proof (induction ds arbitrary: n)
  case Nil
  then show ?case by simp
next
  case (Cons y ys)
  show ?case
  proof (cases "y = d")
    case True
    with Cons.prems show ?thesis by simp
  next
    case False
    with Cons.prems have "indexOf_from (n + 1) ys d = int k" by simp
    from Cons.IH [OF this] have ih: "\<forall>j. n + 1 \<le> j \<and> j < k \<longrightarrow> ys ! (j - (n + 1)) \<noteq> d" .
    show ?thesis
    proof (intro allI impI)
      fix j assume j: "n \<le> j \<and> j < k"
      show "(y # ys) ! (j - n) \<noteq> d"
      proof (cases "j = n")
        case True
        with False show ?thesis by simp
      next
        case False
        with j have "n + 1 \<le> j \<and> j < k" by simp
        with ih have "ys ! (j - (n + 1)) \<noteq> d" by blast
        moreover from j False have "j - n = Suc (j - (n + 1))" by arith
        ultimately show ?thesis by simp
      qed
    qed
  qed
qed

lemma indexOf_first_occurrence:
  assumes i: "i < length ds"
  shows "indexOf ds (ds ! i) = int i \<longleftrightarrow> (\<forall>j<i. ds ! j \<noteq> ds ! i)"
proof -
  from i have "ds ! i \<in> set ds" by simp
  from indexOf_from_mem [OF this, of 0] obtain k where k: "indexOf ds (ds ! i) = int k"
    by (auto simp: indexOf_def)
  from indexOf_from_found [of 0 ds "ds ! i" k] k have kk: "k < length ds" "ds ! k = ds ! i"
    by (simp_all add: indexOf_def)
  from indexOf_from_first [of 0 ds "ds ! i" k] k have first: "\<forall>j<k. ds ! j \<noteq> ds ! i"
    by (simp add: indexOf_def)
  show ?thesis
  proof
    assume "indexOf ds (ds ! i) = int i"
    with k have "k = i" by simp
    with first show "\<forall>j<i. ds ! j \<noteq> ds ! i" by simp
  next
    assume a: "\<forall>j<i. ds ! j \<noteq> ds ! i"
    have "k = i"
    proof (rule ccontr)
      assume "k \<noteq> i"
      then consider "k < i" | "i < k" by linarith
      then show False
      proof cases
        case 1
        with a kk(2) show False by blast
      next
        case 2
        with first show False by blast
      qed
    qed
    with k show "indexOf ds (ds ! i) = int i" by simp
  qed
qed

lemma indexOf_is_first:
  assumes "d \<in> set ds" and "indexOf ds d = int i"
  shows "i < length ds \<and> ds ! i = d \<and> (\<forall>j<i. ds ! j \<noteq> ds ! i)"
proof -
  from indexOf_from_found [of 0 ds d i] assms(2) have "i < length ds" "ds ! i = d"
    by (simp_all add: indexOf_def)
  moreover from indexOf_from_first [of 0 ds d i] assms(2) have "\<forall>j<i. ds ! j \<noteq> d"
    by (simp add: indexOf_def)
  ultimately show ?thesis by simp
qed

text \<open>
  The result for an arbitrary list of addresses: a position holds what the guarded call
  returned for its chunk when it is the first position of that chunk object, and the
  placeholder otherwise.
\<close>

lemma processDocumentChunksInBatches_positions:
  assumes init: "1 \<le> initialBatchSize config"
  shows "processDocumentChunksInBatches env config ds
     = Some (map (\<lambda>i. if \<forall>j<i. ds ! j \<noteq> ds ! i
                        then (if snd (embed_with_fallback env ds (ds ! i)) = Missing
                              then JArray zero_vector
                              else snd (embed_with_fallback env ds (ds ! i)))
                        else JArray zero_vector)
               [0..<length ds])"
proof -
  let ?st0 = "\<lparr>currentBatchSize = initialBatchSize config, consecutiveFailures = 0,
              consecutiveSuccesses = 0, queue = ds, results = Map.empty\<rparr>"
  from batch_loop_drains [OF init, of ?st0 ds env] init
  obtain st' where st': "batch_loop env config ds ?st0 = Some st'"
    and stored: "\<forall>d \<in> set ds. results st' (indexOf ds d)
                   = Some (snd (embed_with_fallback env ds d))"
    and other: "\<forall>key. key \<notin> indexOf ds ` set ds \<longrightarrow> results st' key = None"
    by auto
  have each: "(case results st' (int i) of
                 Some e \<Rightarrow> if e = Missing then JArray zero_vector else e
               | None \<Rightarrow> JArray zero_vector)
      = (if \<forall>j<i. ds ! j \<noteq> ds ! i
         then (if snd (embed_with_fallback env ds (ds ! i)) = Missing
               then JArray zero_vector
               else snd (embed_with_fallback env ds (ds ! i)))
         else JArray zero_vector)"
    if i: "i < length ds" for i
  proof (cases "\<forall>j<i. ds ! j \<noteq> ds ! i")
    case True
    with indexOf_first_occurrence [OF i] have "indexOf ds (ds ! i) = int i" by simp
    moreover from i have "ds ! i \<in> set ds" by simp
    ultimately have "results st' (int i) = Some (snd (embed_with_fallback env ds (ds ! i)))"
      using stored by metis
    with True show ?thesis by simp
  next
    case False
    have "int i \<notin> indexOf ds ` set ds"
    proof
      assume "int i \<in> indexOf ds ` set ds"
      then obtain d where d: "d \<in> set ds" "indexOf ds d = int i" by auto
      from indexOf_is_first [OF d] False show False by blast
    qed
    with other have "results st' (int i) = None" by blast
    with False show ?thesis by auto
  qed
  show ?thesis
    unfolding processDocumentChunksInBatches_def st'
    by (simp add: each cong: map_cong)
qed

text \<open>
  Claim C3. For a list of \<open>n\<close> chunk objects (pairwise distinct, as the caller builds
  them) and a configuration whose initial batch size is at least 1 (the default is 10),
  \<^verbatim>\<open>processDocumentChunksInBatches\<close> returns, and returns \<open>n\<close> vectors in the order
  of the chunks. Position \<open>i\<close> is determined by the provider's answers for chunk \<open>i\<close>:
  when call \<open>k\<close> (of at most 5) returns an embedding after \<open>k\<close> calls that failed with
  an error the wrapper retries, position \<open>i\<close> holds that embedding (the placeholder when
  the returned value is empty); when a call fails with an error the wrapper does not
  retry, or all 5 calls fail, it holds the all-zero vector of 1536 components.

  Every per-chunk promise has its own \<^verbatim>\<open>catch\<close>, so \<^verbatim>\<open>Promise.all\<close> over a batch is
  always fulfilled. Were a batch to fail as a whole, its chunks would be reprocessed
  rather than dropped: from the state the batch's \<^verbatim>\<open>catch\<close> block leaves (minimum batch
  size at least 1), the loop ends with an empty queue having stored an embedding for every
  chunk of the failed batch and of the rest of the queue, and no result stored before is
  lost.

  The older \<^verbatim>\<open>processEmbeddingsInBatches\<close> returns one vector per chunk for every list,
  determined by the provider's answers in the same way.
\<close>

theorem processDocumentChunksInBatches_fills_every_position:
  "(distinct enhancedDocs \<and> 1 \<le> initialBatchSize config \<longrightarrow>
      (\<exists>res. processDocumentChunksInBatches env config enhancedDocs = Some res
         \<and> length res = length enhancedDocs
         \<and> (\<forall>i < length enhancedDocs.
               (res ! i = JArray (replicate 1536 (JNumber 0))
                \<or> (\<exists>k<5. embedQuery env (enhancedDocs ! i)
                             (pageContentOf env (enhancedDocs ! i)) k = Inr (res ! i)))
               \<and> (\<forall>k e. k < 5
                      \<and> (\<forall>j<k. \<exists>err. embedQuery env (enhancedDocs ! i)
                                          (pageContentOf env (enhancedDocs ! i)) j = Inl err
                                    \<and> shouldRetry [429, 500, 502, 503, 504] err)
                      \<and> embedQuery env (enhancedDocs ! i)
                            (pageContentOf env (enhancedDocs ! i)) k = Inr e
                    \<longrightarrow> res ! i = (if e = Missing then JArray (replicate 1536 (JNumber 0)) else e))
               \<and> (\<forall>k err. k < 5
                      \<and> (\<forall>j<k. \<exists>err'. embedQuery env (enhancedDocs ! i)
                                           (pageContentOf env (enhancedDocs ! i)) j = Inl err'
                                    \<and> shouldRetry [429, 500, 502, 503, 504] err')
                      \<and> embedQuery env (enhancedDocs ! i)
                            (pageContentOf env (enhancedDocs ! i)) k = Inl err
                      \<and> \<not> shouldRetry [429, 500, 502, 503, 504] err
                    \<longrightarrow> res ! i = JArray (replicate 1536 (JNumber 0)))
               \<and> ((\<forall>k<5. \<exists>err. embedQuery env (enhancedDocs ! i)
                                  (pageContentOf env (enhancedDocs ! i)) k = Inl err)
                    \<longrightarrow> res ! i = JArray (replicate 1536 (JNumber 0))))))
   \<and> promise_all (map (\<lambda>doc. Inr (embed_with_fallback env enhancedDocs doc)) batch)
       = Inr (map (embed_with_fallback env enhancedDocs) batch)
   \<and> (1 \<le> initialBatchSize config \<and> 1 \<le> minBatchSize config
        \<and> set (queue st) \<union> set batch \<subseteq> set enhancedDocs \<longrightarrow>
        (\<exists>st'. batch_loop env config enhancedDocs (settle_batch config st batch (Inl error))
                 = Some st'
           \<and> queue st' = []
           \<and> (\<forall>d \<in> set (queue st) \<union> set batch.
                 results st' (indexOf enhancedDocs d)
                   = Some (snd (embed_with_fallback env enhancedDocs d)))
           \<and> (\<forall>key. key \<notin> indexOf enhancedDocs ` (set (queue st) \<union> set batch)
                 \<longrightarrow> results st' key = results st key)))
   \<and> length (processEmbeddingsInBatches env chunks) = length chunks
   \<and> (\<forall>i < length chunks.
         (processEmbeddingsInBatches env chunks ! i = JArray (replicate 1536 (JNumber 0))
          \<or> (\<exists>k<5. embedQuery env (chunks ! i) (pageContentOf env (chunks ! i)) k
                      = Inr (processEmbeddingsInBatches env chunks ! i)))
         \<and> (\<forall>k e. k < 5
                \<and> (\<forall>j<k. \<exists>err. embedQuery env (chunks ! i) (pageContentOf env (chunks ! i)) j
                                   = Inl err
                              \<and> shouldRetry [429, 500, 502, 503, 504] err)
                \<and> embedQuery env (chunks ! i) (pageContentOf env (chunks ! i)) k = Inr e
              \<longrightarrow> processEmbeddingsInBatches env chunks ! i = e)
         \<and> (\<forall>k err. k < 5
                \<and> (\<forall>j<k. \<exists>err'. embedQuery env (chunks ! i) (pageContentOf env (chunks ! i)) j
                                    = Inl err'
                              \<and> shouldRetry [429, 500, 502, 503, 504] err')
                \<and> embedQuery env (chunks ! i) (pageContentOf env (chunks ! i)) k = Inl err
                \<and> \<not> shouldRetry [429, 500, 502, 503, 504] err
              \<longrightarrow> processEmbeddingsInBatches env chunks ! i = JArray (replicate 1536 (JNumber 0)))
         \<and> ((\<forall>k<5. \<exists>err. embedQuery env (chunks ! i) (pageContentOf env (chunks ! i)) k = Inl err)
              \<longrightarrow> processEmbeddingsInBatches env chunks ! i = JArray (replicate 1536 (JNumber 0))))"
proof -
  let ?Z = "JArray (replicate 1536 (JNumber 0))"
  let ?codes = "[429, 500, 502, 503, 504] :: nat list"
  let ?E = "\<lambda>i. snd (embed_with_fallback env enhancedDocs (enhancedDocs ! i))"
  let ?q = "\<lambda>i k. embedQuery env (enhancedDocs ! i) (pageContentOf env (enhancedDocs ! i)) k"
  have z: "JArray zero_vector = ?Z"
    by (simp add: zero_vector_def)
  have main: "\<exists>res. processDocumentChunksInBatches env config enhancedDocs = Some res
         \<and> length res = length enhancedDocs
         \<and> (\<forall>i < length enhancedDocs.
               (res ! i = ?Z \<or> (\<exists>k<5. ?q i k = Inr (res ! i)))
               \<and> (\<forall>k e. k < 5 \<and> (\<forall>j<k. \<exists>err. ?q i j = Inl err \<and> shouldRetry ?codes err)
                      \<and> ?q i k = Inr e
                    \<longrightarrow> res ! i = (if e = Missing then ?Z else e))
               \<and> (\<forall>k err. k < 5 \<and> (\<forall>j<k. \<exists>err'. ?q i j = Inl err' \<and> shouldRetry ?codes err')
                      \<and> ?q i k = Inl err \<and> \<not> shouldRetry ?codes err
                    \<longrightarrow> res ! i = ?Z)
               \<and> ((\<forall>k<5. \<exists>err. ?q i k = Inl err) \<longrightarrow> res ! i = ?Z))"
    if d: "distinct enhancedDocs" and init: "1 \<le> initialBatchSize config"
  proof -
    let ?res = "map (\<lambda>index. if ?E index = Missing then ?Z else ?E index)
                  [0..<length enhancedDocs]"
    have first: "\<forall>j<i. enhancedDocs ! j \<noteq> enhancedDocs ! i" if "i < length enhancedDocs" for i
      using d that by (auto simp: nth_eq_iff_index_eq)
    have r: "processDocumentChunksInBatches env config enhancedDocs = Some ?res"
      unfolding processDocumentChunksInBatches_positions [OF init]
      using first by (simp add: z cong: map_cong)
    have each: "(?res ! i = ?Z \<or> (\<exists>k<5. ?q i k = Inr (?res ! i)))
               \<and> (\<forall>k e. k < 5 \<and> (\<forall>j<k. \<exists>err. ?q i j = Inl err \<and> shouldRetry ?codes err)
                      \<and> ?q i k = Inr e
                    \<longrightarrow> ?res ! i = (if e = Missing then ?Z else e))
               \<and> (\<forall>k err. k < 5 \<and> (\<forall>j<k. \<exists>err'. ?q i j = Inl err' \<and> shouldRetry ?codes err')
                      \<and> ?q i k = Inl err \<and> \<not> shouldRetry ?codes err
                    \<longrightarrow> ?res ! i = ?Z)
               \<and> ((\<forall>k<5. \<exists>err. ?q i k = Inl err) \<longrightarrow> ?res ! i = ?Z)"
      if i: "i < length enhancedDocs" for i
    proof -
      note det = embed_with_fallback_determined [of env "enhancedDocs ! i" enhancedDocs,
          unfolded z]
      have v: "?res ! i = (if ?E i = Missing then ?Z else ?E i)"
        using i by simp
      have a: "?res ! i = ?Z \<or> (\<exists>k<5. ?q i k = Inr (?res ! i))"
        unfolding v
        using embed_with_fallback_source [of env enhancedDocs "enhancedDocs ! i"]
        by (auto simp: z)
      have b: "\<forall>k e. k < 5 \<and> (\<forall>j<k. \<exists>err. ?q i j = Inl err \<and> shouldRetry ?codes err)
                      \<and> ?q i k = Inr e
                    \<longrightarrow> ?res ! i = (if e = Missing then ?Z else e)"
      proof (intro allI impI)
        fix k e
        assume h: "k < 5 \<and> (\<forall>j<k. \<exists>err. ?q i j = Inl err \<and> shouldRetry ?codes err)
                      \<and> ?q i k = Inr e"
        with det have "?E i = e" by blast
        then show "?res ! i = (if e = Missing then ?Z else e)"
          unfolding v by simp
      qed
      have c: "\<forall>k err. k < 5 \<and> (\<forall>j<k. \<exists>err'. ?q i j = Inl err' \<and> shouldRetry ?codes err')
                      \<and> ?q i k = Inl err \<and> \<not> shouldRetry ?codes err
                    \<longrightarrow> ?res ! i = ?Z"
      proof (intro allI impI)
        fix k err
        assume h: "k < 5 \<and> (\<forall>j<k. \<exists>err'. ?q i j = Inl err' \<and> shouldRetry ?codes err')
                      \<and> ?q i k = Inl err \<and> \<not> shouldRetry ?codes err"
        with det have "?E i = ?Z" by blast
        then show "?res ! i = ?Z"
          unfolding v by simp
      qed
      have e: "?res ! i = ?Z" if f: "\<forall>k<5. \<exists>err. ?q i k = Inl err"
      proof -
        from f have "\<not> (\<exists>k<5. ?q i k = Inr (?E i))"
          by (metis Inl_Inr_False)
        with embed_with_fallback_source [of env enhancedDocs "enhancedDocs ! i"]
        have "?E i = ?Z" by (auto simp: z)
        then show ?thesis unfolding v by simp
      qed
      from a b c e show ?thesis by blast
    qed
    have "length ?res = length enhancedDocs" by simp
    with r each show ?thesis by blast
  qed
  have fulfilled: "promise_all (map (\<lambda>doc. Inr (embed_with_fallback env enhancedDocs doc)) batch)
       = Inr (map (embed_with_fallback env enhancedDocs) batch)"
    by (rule promise_all_Inr)
  have requeue: "\<exists>st'. batch_loop env config enhancedDocs (settle_batch config st batch (Inl error))
                 = Some st'
           \<and> queue st' = []
           \<and> (\<forall>d \<in> set (queue st) \<union> set batch.
                 results st' (indexOf enhancedDocs d)
                   = Some (snd (embed_with_fallback env enhancedDocs d)))
           \<and> (\<forall>key. key \<notin> indexOf enhancedDocs ` (set (queue st) \<union> set batch)
                 \<longrightarrow> results st' key = results st key)"
    if init: "1 \<le> initialBatchSize config" and minb: "1 \<le> minBatchSize config"
      and sub: "set (queue st) \<union> set batch \<subseteq> set enhancedDocs"
  proof -
    let ?st = "settle_batch config st batch (Inl error)"
    have q: "queue ?st = queue st @ batch" and r: "results ?st = results st"
      and f: "0 < consecutiveFailures ?st"
      by (simp_all add: settle_batch_def)
    have s: "set (queue ?st) \<subseteq> set enhancedDocs"
      using sub by (simp add: q)
    from batch_loop_drains [OF init s, of env] f minb
    show ?thesis by (simp add: q r)
  qed
  have older_len: "length (processEmbeddingsInBatches env chunks) = length chunks"
    by (simp add: processEmbeddingsInBatches_map)
  have older: "(processEmbeddingsInBatches env chunks ! i = ?Z
          \<or> (\<exists>k<5. embedQuery env (chunks ! i) (pageContentOf env (chunks ! i)) k
                      = Inr (processEmbeddingsInBatches env chunks ! i)))
         \<and> (\<forall>k e. k < 5
                \<and> (\<forall>j<k. \<exists>err. embedQuery env (chunks ! i) (pageContentOf env (chunks ! i)) j
                                   = Inl err
                              \<and> shouldRetry ?codes err)
                \<and> embedQuery env (chunks ! i) (pageContentOf env (chunks ! i)) k = Inr e
              \<longrightarrow> processEmbeddingsInBatches env chunks ! i = e)
         \<and> (\<forall>k err. k < 5
                \<and> (\<forall>j<k. \<exists>err'. embedQuery env (chunks ! i) (pageContentOf env (chunks ! i)) j
                                    = Inl err'
                              \<and> shouldRetry ?codes err')
                \<and> embedQuery env (chunks ! i) (pageContentOf env (chunks ! i)) k = Inl err
                \<and> \<not> shouldRetry ?codes err
              \<longrightarrow> processEmbeddingsInBatches env chunks ! i = ?Z)
         \<and> ((\<forall>k<5. \<exists>err. embedQuery env (chunks ! i) (pageContentOf env (chunks ! i)) k = Inl err)
              \<longrightarrow> processEmbeddingsInBatches env chunks ! i = ?Z)"
    if i: "i < length chunks" for i
  proof -
    let ?q = "embedQuery env (chunks ! i) (pageContentOf env (chunks ! i))"
    note det = embed_text_or_zero_determined [of env "chunks ! i", unfolded z]
    have v: "processEmbeddingsInBatches env chunks ! i = embed_text_or_zero env (chunks ! i)"
      using i by (simp add: processEmbeddingsInBatches_map)
    note src = embed_text_or_zero_source [of env "chunks ! i", unfolded z]
    have e: "embed_text_or_zero env (chunks ! i) = ?Z" if f: "\<forall>k<5. \<exists>err. ?q k = Inl err"
    proof -
      from f have "\<not> (\<exists>k<5. ?q k = Inr (embed_text_or_zero env (chunks ! i)))"
        by (metis Inl_Inr_False)
      with src show ?thesis by blast
    qed
    from det src e show ?thesis unfolding v by blast
  qed
  from main fulfilled requeue older_len older show ?thesis by blast
qed

lemma list4_nth: "length xs = 4 \<Longrightarrow> xs = [xs ! 0, xs ! 1, xs ! 2, xs ! 3]"
  by (auto simp: eval_nat_numeral length_Suc_conv)

text \<open>
  Four chunks: the provider answers the first at its fourth call, rejects the second,
  answers the third at once and is rate-limited five times for the fourth. The same
  embeddings are stored when the loop continues after a failure of the batch of the first
  two chunks.
\<close>

theorem processDocumentChunksInBatches_fills_every_position_witness:
  "processDocumentChunksInBatches ex_flaky_embedder default_batch_config [10, 20, 30, 40]
     = Some [JArray [JNumber 3], JArray (replicate 1536 (JNumber 0)), JArray [JNumber 1],
             JArray (replicate 1536 (JNumber 0))]
   \<and> (\<exists>st'. batch_loop ex_flaky_embedder default_batch_config [10, 20, 30, 40]
               (settle_batch default_batch_config
                  \<lparr>currentBatchSize = 10, consecutiveFailures = 0, consecutiveSuccesses = 0,
                    queue = [30, 40], results = Map.empty\<rparr>
                  [10, 20] (Inl (Error ''network''))) = Some st'
          \<and> queue st' = []
          \<and> results st' 0 = Some (JArray [JNumber 3])
          \<and> results st' 2 = Some (JArray [JNumber 1]))
   \<and> processEmbeddingsInBatches ex_flaky_embedder [10, 20, 30, 40]
     = [JArray [JNumber 3], JArray (replicate 1536 (JNumber 0)), JArray [JNumber 1],
        JArray (replicate 1536 (JNumber 0))]"
proof -
  let ?ds = "[10, 20, 30, 40] :: nat list"
  let ?env = ex_flaky_embedder
  let ?cfg = default_batch_config
  let ?st = "\<lparr>currentBatchSize = 10, consecutiveFailures = 0, consecutiveSuccesses = 0,
              queue = [30, 40], results = Map.empty\<rparr> :: batch_state"
  let ?Z = "JArray (replicate 1536 (JNumber 0))"
  let ?codes = "[429, 500, 502, 503, 504] :: nat list"
  let ?q = "\<lambda>d. embedQuery ?env d (pageContentOf ?env d)"
  note inst = processDocumentChunksInBatches_fills_every_position
    [where enhancedDocs = ?ds and config = ?cfg and env = ?env and batch = "[10, 20]"
       and st = ?st and error = "Error ''network''" and chunks = ?ds]
  have yes: "shouldRetry ?codes ex_rate_limited"
    by (simp add: shouldRetry_def ex_rate_limited_def)
  have no: "\<not> shouldRetry ?codes ex_bad_request"
    by code_simp
  have q10: "\<forall>j<3. \<exists>err. ?q 10 j = Inl err \<and> shouldRetry ?codes err"
    "?q 10 3 = Inr (JArray [JNumber 3])"
    using yes by (simp_all add: ex_flaky_embedder_def)
  have q20: "\<forall>j<0. \<exists>err. ?q 20 j = Inl err \<and> shouldRetry ?codes err"
    "?q 20 0 = Inl ex_bad_request"
    by (simp_all add: ex_flaky_embedder_def)
  have q30: "\<forall>j<0. \<exists>err. ?q 30 j = Inl err \<and> shouldRetry ?codes err"
    "?q 30 0 = Inr (JArray [JNumber 1])"
    by (simp_all add: ex_flaky_embedder_def)
  have q40: "\<forall>k<5. \<exists>err. ?q 40 k = Inl err"
    by (simp add: ex_flaky_embedder_def)
  have h: "distinct ?ds \<and> 1 \<le> initialBatchSize ?cfg"
    by (simp add: default_batch_config_def)
  from inst [THEN conjunct1, THEN mp, OF h] obtain res where
    res: "processDocumentChunksInBatches ?env ?cfg ?ds = Some res"
    and len: "length res = length ?ds"
    and pos: "\<forall>i < length ?ds.
        (res ! i = ?Z \<or> (\<exists>k<5. ?q (?ds ! i) k = Inr (res ! i)))
        \<and> (\<forall>k e. k < 5 \<and> (\<forall>j<k. \<exists>err. ?q (?ds ! i) j = Inl err \<and> shouldRetry ?codes err)
               \<and> ?q (?ds ! i) k = Inr e
             \<longrightarrow> res ! i = (if e = Missing then ?Z else e))
        \<and> (\<forall>k err. k < 5 \<and> (\<forall>j<k. \<exists>err'. ?q (?ds ! i) j = Inl err' \<and> shouldRetry ?codes err')
               \<and> ?q (?ds ! i) k = Inl err \<and> \<not> shouldRetry ?codes err
             \<longrightarrow> res ! i = ?Z)
        \<and> ((\<forall>k<5. \<exists>err. ?q (?ds ! i) k = Inl err) \<longrightarrow> res ! i = ?Z)"
    by (elim exE conjE)
  have r0: "res ! 0 = JArray [JNumber 3]"
    using pos [rule_format, of 0, THEN conjunct2, THEN conjunct1, rule_format,
        of 3 "JArray [JNumber 3]"] q10
    by simp
  have r1: "res ! 1 = ?Z"
    using pos [rule_format, of 1, THEN conjunct2, THEN conjunct2, THEN conjunct1, rule_format,
        of 0 ex_bad_request] q20 no
    by simp
  have r2: "res ! 2 = JArray [JNumber 1]"
    using pos [rule_format, of 2, THEN conjunct2, THEN conjunct1, rule_format,
        of 0 "JArray [JNumber 1]"] q30
    by simp
  have r3: "res ! 3 = ?Z"
    using pos [rule_format, of 3, THEN conjunct2, THEN conjunct2, THEN conjunct2] q40
    by simp
  have "length res = 4" using len by simp
  from list4_nth [OF this] r0 r1 r2 r3
  have "res = [JArray [JNumber 3], ?Z, JArray [JNumber 1], ?Z]" by simp
  with res have first: "processDocumentChunksInBatches ?env ?cfg ?ds
      = Some [JArray [JNumber 3], ?Z, JArray [JNumber 1], ?Z]"
    by simp
  have e10: "snd (embed_with_fallback ?env ?ds 10) = JArray [JNumber 3]"
    using embed_with_fallback_determined [of ?env 10 ?ds, THEN conjunct1, rule_format,
        of 3 "JArray [JNumber 3]"] q10
    by simp
  have e30: "snd (embed_with_fallback ?env ?ds 30) = JArray [JNumber 1]"
    using embed_with_fallback_determined [of ?env 30 ?ds, THEN conjunct1, rule_format,
        of 0 "JArray [JNumber 1]"] q30
    by simp
  have h2: "1 \<le> initialBatchSize ?cfg \<and> 1 \<le> minBatchSize ?cfg
      \<and> set (queue ?st) \<union> set [10, 20] \<subseteq> set ?ds"
    by (simp add: default_batch_config_def)
  from inst [THEN conjunct2, THEN conjunct2, THEN conjunct1, THEN mp, OF h2] obtain st' where
    st': "batch_loop ?env ?cfg ?ds (settle_batch ?cfg ?st [10, 20] (Inl (Error ''network''))) = Some st'"
      "queue st' = []"
    and stored: "\<forall>d \<in> set (queue ?st) \<union> set [10, 20].
        results st' (indexOf ?ds d) = Some (snd (embed_with_fallback ?env ?ds d))"
    by (elim exE conjE)
  from stored have "results st' (indexOf ?ds 10) = Some (snd (embed_with_fallback ?env ?ds 10))"
    "results st' (indexOf ?ds 30) = Some (snd (embed_with_fallback ?env ?ds 30))"
    by simp_all
  then have s: "results st' 0 = Some (JArray [JNumber 3])" "results st' 2 = Some (JArray [JNumber 1])"
    by (simp_all add: indexOf_def e10 e30)
  note olen = inst [THEN conjunct2, THEN conjunct2, THEN conjunct2, THEN conjunct1]
  note opos = inst [THEN conjunct2, THEN conjunct2, THEN conjunct2, THEN conjunct2]
  let ?old = "processEmbeddingsInBatches ?env ?ds"
  have o0: "?old ! 0 = JArray [JNumber 3]"
    using opos [rule_format, of 0, THEN conjunct2, THEN conjunct1, rule_format,
        of 3 "JArray [JNumber 3]"] q10
    by simp
  have o1: "?old ! 1 = ?Z"
    using opos [rule_format, of 1, THEN conjunct2, THEN conjunct2, THEN conjunct1, rule_format,
        of 0 ex_bad_request] q20 no
    by simp
  have o2: "?old ! 2 = JArray [JNumber 1]"
    using opos [rule_format, of 2, THEN conjunct2, THEN conjunct1, rule_format,
        of 0 "JArray [JNumber 1]"] q30
    by simp
  have o3: "?old ! 3 = ?Z"
    using opos [rule_format, of 3, THEN conjunct2, THEN conjunct2, THEN conjunct2] q40
    by simp
  have "length ?old = 4" using olen by simp
  from list4_nth [OF this] o0 o1 o2 o3
  have older: "?old = [JArray [JNumber 3], ?Z, JArray [JNumber 1], ?Z]" by simp
  from first st' s older show ?thesis by blast
qed

subsection \<open>Retrieval and generation\<close>

lemma variations_loop_stops:
  "length A < 5 \<Longrightarrow> variations_loop store vs A T = (docs, tr) \<Longrightarrow>
   \<exists>m \<le> length vs.
      tr = T @ map (\<lambda>v. SimilaritySearch v 7) (take m vs)
      \<and> docs = A @ concat (map (\<lambda>v. case similaritySearch store v 7 of
                                        Inr ds \<Rightarrow> ds | Inl err \<Rightarrow> []) (take m vs))
      \<and> (\<forall>j<m. length (A @ concat (map (\<lambda>v. case similaritySearch store v 7 of
                                        Inr ds \<Rightarrow> ds | Inl err \<Rightarrow> []) (take j vs))) < 5)
      \<and> (m < length vs \<longrightarrow>
            5 \<le> length (A @ concat (map (\<lambda>v. case similaritySearch store v 7 of
                                        Inr ds \<Rightarrow> ds | Inl err \<Rightarrow> []) (take m vs))))"
proof (induction vs arbitrary: A T)
  case Nil
  then show ?case by simp
next
  case (Cons v rest)
  let ?hits = "\<lambda>v. case similaritySearch store v 7 of Inr ds \<Rightarrow> ds | Inl err \<Rightarrow> []"
  show ?case
  proof (cases "?hits v \<noteq> [] \<and> 5 \<le> length (A @ ?hits v)")
    case True
    then obtain ds where ds: "similaritySearch store v 7 = Inr ds" "ds \<noteq> []"
      "5 \<le> length (A @ ds)"
      by (cases "similaritySearch store v 7") auto
    with Cons.prems(2) have r: "docs = A @ ds" "tr = T @ [SimilaritySearch v 7]"
      by auto
    show ?thesis
      using r ds Cons.prems(1) by (intro exI [of _ 1]) simp
  next
    case False
    have step: "variations_loop store (v # rest) A T
        = variations_loop store rest (A @ ?hits v) (T @ [SimilaritySearch v 7])"
      using False by (cases "similaritySearch store v 7") auto
    have small: "length (A @ ?hits v) < 5"
      using False Cons.prems(1) by (cases "?hits v = []") auto
    from Cons.IH [OF small, of "T @ [SimilaritySearch v 7]"] Cons.prems(2) step
    obtain m where m: "m \<le> length rest"
      "tr = (T @ [SimilaritySearch v 7]) @ map (\<lambda>v. SimilaritySearch v 7) (take m rest)"
      "docs = (A @ ?hits v) @ concat (map ?hits (take m rest))"
      "\<forall>j<m. length ((A @ ?hits v) @ concat (map ?hits (take j rest))) < 5"
      "m < length rest \<longrightarrow> 5 \<le> length ((A @ ?hits v) @ concat (map ?hits (take m rest)))"
      by auto
    have all: "\<forall>j<Suc m. length (A @ concat (map ?hits (take j (v # rest)))) < 5"
    proof (intro allI impI)
      fix j assume j: "j < Suc m"
      show "length (A @ concat (map ?hits (take j (v # rest)))) < 5"
      proof (cases j)
        case 0
        with Cons.prems(1) show ?thesis by simp
      next
        case (Suc i)
        with j m(4) show ?thesis by simp
      qed
    qed
    show ?thesis
      using m(1,2,3,5) all by (intro exI [of _ "Suc m"]) simp
  qed
qed

lemma getRelevantDocsFromMemory_trace:
  "getRelevantDocsFromMemory (Some store) vs = (docs, tr) \<Longrightarrow>
   \<exists>m \<le> length vs.
      tr = map (\<lambda>v. SimilaritySearch v 7) (take m vs)
           @ (if concat (map (\<lambda>v. case similaritySearch store v 7 of
                                      Inr ds \<Rightarrow> ds | Inl err \<Rightarrow> []) (take m vs)) = []
              then [MMRSearch (first_variation vs) 5 20] else [])
      \<and> (\<forall>j<m. length (concat (map (\<lambda>v. case similaritySearch store v 7 of
                                      Inr ds \<Rightarrow> ds | Inl err \<Rightarrow> []) (take j vs))) < 5)
      \<and> (m < length vs \<longrightarrow>
            5 \<le> length (concat (map (\<lambda>v. case similaritySearch store v 7 of
                                      Inr ds \<Rightarrow> ds | Inl err \<Rightarrow> []) (take m vs))))
      \<and> (concat (map (\<lambda>v. case similaritySearch store v 7 of
                             Inr ds \<Rightarrow> ds | Inl err \<Rightarrow> []) (take m vs)) \<noteq> [] \<longrightarrow>
            docs = deduplicateDocuments
                     (concat (map (\<lambda>v. case similaritySearch store v 7 of
                                          Inr ds \<Rightarrow> ds | Inl err \<Rightarrow> []) (take m vs))))"
proof -
  assume g: "getRelevantDocsFromMemory (Some store) vs = (docs, tr)"
  let ?hits = "\<lambda>v. case similaritySearch store v 7 of Inr ds \<Rightarrow> ds | Inl err \<Rightarrow> []"
  obtain all t where loop: "variations_loop store vs [] [] = (all, t)"
    by (cases "variations_loop store vs [] []") auto
  from variations_loop_stops [OF _ loop] obtain m where m: "m \<le> length vs"
    "t = map (\<lambda>v. SimilaritySearch v 7) (take m vs)"
    "all = concat (map ?hits (take m vs))"
    "\<forall>j<m. length (concat (map ?hits (take j vs))) < 5"
    "m < length vs \<longrightarrow> 5 \<le> length (concat (map ?hits (take m vs)))"
    by auto
  have tr: "tr = t @ (if all = [] then [MMRSearch (first_variation vs) 5 20] else [])"
    using g loop by (auto simp: getRelevantDocsFromMemory_def split: sum.splits if_splits)
  have docs: "all \<noteq> [] \<longrightarrow> docs = deduplicateDocuments all"
    using g loop by (auto simp: getRelevantDocsFromMemory_def split: sum.splits if_splits)
  from m tr docs show ?thesis by blast
qed

lemma getRelevantDocsFromMemory_events:
  "ev \<in> set (snd (getRelevantDocsFromMemory store vs)) \<Longrightarrow>
     (\<exists>v k. ev = SimilaritySearch v k) \<or> (\<exists>v k f. ev = MMRSearch v k f)"
proof (cases store)
  case None
  assume "ev \<in> set (snd (getRelevantDocsFromMemory store vs))"
  with None show ?thesis by (simp add: getRelevantDocsFromMemory_def)
next
  case (Some s)
  assume ev: "ev \<in> set (snd (getRelevantDocsFromMemory store vs))"
  obtain docs tr where r: "getRelevantDocsFromMemory (Some s) vs = (docs, tr)"
    by (cases "getRelevantDocsFromMemory (Some s) vs") auto
  from getRelevantDocsFromMemory_trace [OF r] obtain m where
    "tr = map (\<lambda>v. SimilaritySearch v 7) (take m vs)
           @ (if concat (map (\<lambda>v. case similaritySearch s v 7 of
                                      Inr ds \<Rightarrow> ds | Inl err \<Rightarrow> []) (take m vs)) = []
              then [MMRSearch (first_variation vs) 5 20] else [])"
    by blast
  with ev Some r show ?thesis by (auto split: if_splits)
qed

lemma getRelevantDocsFromDatabase_events:
  "ev \<in> set (snd (getRelevantDocsFromDatabase env query apiKey)) \<Longrightarrow>
     ev = EmbedQueryCall query \<or> ev = VectorSearch \<or> ev = FallbackSearch query"
  by (auto simp: getRelevantDocsFromDatabase_def Let_def split: option.splits sum.splits)

lemma retrieveRelevantDocs_no_llm:
  "LLMCall p \<notin> set (snd (retrieveRelevantDocs env query apiKey))"
proof
  assume a: "LLMCall p \<in> set (snd (retrieveRelevantDocs env query apiKey))"
  let ?mem = "getRelevantDocsFromMemory (rag_vectorStore env)
                (generateQueryVariations env query (isMathQuery env query))"
  from a have "LLMCall p \<in> set (snd ?mem)
      \<or> LLMCall p \<in> set (snd (getRelevantDocsFromDatabase env query apiKey))"
    by (auto simp: retrieveRelevantDocs_def Let_def split: if_splits)
  then show False
    using getRelevantDocsFromMemory_events [of "LLMCall p"]
      getRelevantDocsFromDatabase_events [of "LLMCall p" env query apiKey]
    by auto
qed

text \<open>
  Claim C5, as the code has it. The in-memory retriever tries the query variants in
  their order, each with \<open>k = 7\<close>, and stops after the first variant at which the
  accumulated results, counted before deduplication, number at least 5; it runs the
  maximal-marginal-relevance search when nothing was accumulated, and deduplicates at the
  end. The persistent tier is consulted exactly when the deduplicated in-memory result has
  fewer than 3 documents; it embeds the raw query, and the merged list is deduplicated
  again.
\<close>

theorem retrieval_order_and_thresholds:
  "(getRelevantDocsFromMemory (Some store) vs = (docs, tr) \<longrightarrow>
     (\<exists>m \<le> length vs.
        tr = map (\<lambda>v. SimilaritySearch v 7) (take m vs)
             @ (if concat (map (\<lambda>v. case similaritySearch store v 7 of
                                        Inr ds \<Rightarrow> ds | Inl err \<Rightarrow> []) (take m vs)) = []
                then [MMRSearch (first_variation vs) 5 20] else [])
        \<and> (\<forall>j<m. length (concat (map (\<lambda>v. case similaritySearch store v 7 of
                                        Inr ds \<Rightarrow> ds | Inl err \<Rightarrow> []) (take j vs))) < 5)
        \<and> (m < length vs \<longrightarrow>
              5 \<le> length (concat (map (\<lambda>v. case similaritySearch store v 7 of
                                        Inr ds \<Rightarrow> ds | Inl err \<Rightarrow> []) (take m vs))))
        \<and> (concat (map (\<lambda>v. case similaritySearch store v 7 of
                               Inr ds \<Rightarrow> ds | Inl err \<Rightarrow> []) (take m vs)) \<noteq> [] \<longrightarrow>
              docs = deduplicateDocuments
                       (concat (map (\<lambda>v. case similaritySearch store v 7 of
                                            Inr ds \<Rightarrow> ds | Inl err \<Rightarrow> []) (take m vs))))))
   \<and> (3 \<le> length (fst (getRelevantDocsFromMemory (rag_vectorStore env)
                           (generateQueryVariations env query (isMathQuery env query)))) \<longrightarrow>
        retrieveRelevantDocs env query apiKey
          = getRelevantDocsFromMemory (rag_vectorStore env)
              (generateQueryVariations env query (isMathQuery env query)))
   \<and> (length (fst (getRelevantDocsFromMemory (rag_vectorStore env)
                      (generateQueryVariations env query (isMathQuery env query)))) < 3 \<longrightarrow>
        retrieveRelevantDocs env query apiKey
          = (deduplicateDocuments
               (fst (getRelevantDocsFromMemory (rag_vectorStore env)
                       (generateQueryVariations env query (isMathQuery env query)))
                @ fst (getRelevantDocsFromDatabase env query apiKey)),
             snd (getRelevantDocsFromMemory (rag_vectorStore env)
                    (generateQueryVariations env query (isMathQuery env query)))
             @ snd (getRelevantDocsFromDatabase env query apiKey)))
   \<and> (\<forall>ev \<in> set (snd (getRelevantDocsFromMemory (rag_vectorStore env)
                           (generateQueryVariations env query (isMathQuery env query)))).
         (\<exists>v k. ev = SimilaritySearch v k) \<or> (\<exists>v k f. ev = MMRSearch v k f))
   \<and> (\<forall>ev \<in> set (snd (getRelevantDocsFromDatabase env query apiKey)).
         ev = EmbedQueryCall query \<or> ev = VectorSearch \<or> ev = FallbackSearch query)"
proof -
  let ?mem = "getRelevantDocsFromMemory (rag_vectorStore env)
                (generateQueryVariations env query (isMathQuery env query))"
  have enough: "3 \<le> length (fst ?mem) \<longrightarrow> retrieveRelevantDocs env query apiKey = ?mem"
    by (simp add: retrieveRelevantDocs_def Let_def)
  have few: "length (fst ?mem) < 3 \<longrightarrow>
        retrieveRelevantDocs env query apiKey
          = (deduplicateDocuments (fst ?mem @ fst (getRelevantDocsFromDatabase env query apiKey)),
             snd ?mem @ snd (getRelevantDocsFromDatabase env query apiKey))"
    by (simp add: retrieveRelevantDocs_def Let_def)
  from getRelevantDocsFromMemory_trace [of store vs docs tr] enough few
    getRelevantDocsFromMemory_events [of _ "rag_vectorStore env"
      "generateQueryVariations env query (isMathQuery env query)"]
    getRelevantDocsFromDatabase_events [of _ env query apiKey]
  show ?thesis by blast
qed

lemma ex_store_memory:
  "getRelevantDocsFromMemory (Some ex_store) (v1 # v2 # rest)
     = ([ex_doc ''alpha'', ex_doc ''beta'', ex_doc ''gamma''],
        [SimilaritySearch v1 7, SimilaritySearch v2 7])"
  by (simp add: getRelevantDocsFromMemory_def ex_store_def deduplicateDocuments_def
        contentId_def ex_doc_def)

lemma ex_empty_store_memory:
  "getRelevantDocsFromMemory (Some ex_empty_store) [v1, v2]
     = ([], [SimilaritySearch v1 7, SimilaritySearch v2 7, MMRSearch (Some v1) 5 20])"
  by (simp add: getRelevantDocsFromMemory_def ex_empty_store_def deduplicateDocuments_def
        first_variation_def)

lemma ex_env_database:
  "getRelevantDocsFromDatabase (ex_env store) q (Some key) = ([], [EmbedQueryCall q, VectorSearch])"
proof -
  have run: "retryWithAdvancedBackoff (keyEmbedQuery (ex_env store) q) query_retry_options
      (backoffRandom (ex_env store))
      = \<lparr>outcome = Inr (JArray [JNumber 1]), invocations = 0 + 1, delays = []\<rparr>"
    unfolding retryWithAdvancedBackoff_def
    by (intro retry_loop_stop_value) (simp_all add: query_retry_options_def ex_env_def)
  have "search_database (ex_env store) (JArray [JNumber 1]) = []"
    by (simp add: search_database_def performVectorSearch_def ex_env_def run_vector_search_def
          split: sum.splits)
  with run show ?thesis
    by (simp add: getRelevantDocsFromDatabase_def Let_def)
qed

text \<open>
  A store that finds three chunks for every variant (the database is not consulted), and
  a store that finds nothing (the database is consulted with the raw query).
\<close>

theorem retrieval_order_and_thresholds_witness:
  "retrieveRelevantDocs (ex_env (Some ex_store)) ''q'' (Some ''key'')
     = ([ex_doc ''alpha'', ex_doc ''beta'', ex_doc ''gamma''],
        [SimilaritySearch ''q'' 7, SimilaritySearch ''q formula'' 7])
   \<and> retrieveRelevantDocs (ex_env (Some ex_empty_store)) ''q'' (Some ''key'')
     = ([], [SimilaritySearch ''q'' 7, SimilaritySearch ''q formula'' 7,
             MMRSearch (Some ''q'') 5 20, EmbedQueryCall ''q'', VectorSearch])"
proof -
  let ?full = "ex_env (Some ex_store)"
  let ?empty = "ex_env (Some ex_empty_store)"
  have vs: "generateQueryVariations (ex_env s) ''q'' (isMathQuery (ex_env s) ''q'')
      = [''q'', ''q formula'']" for s
    by (simp add: ex_env_def)
  have st: "rag_vectorStore (ex_env s) = s" for s
    by (simp add: ex_env_def)
  have m1: "getRelevantDocsFromMemory (rag_vectorStore ?full)
        (generateQueryVariations ?full ''q'' (isMathQuery ?full ''q''))
      = ([ex_doc ''alpha'', ex_doc ''beta'', ex_doc ''gamma''],
         [SimilaritySearch ''q'' 7, SimilaritySearch ''q formula'' 7])"
    unfolding vs st by (rule ex_store_memory)
  have m2: "getRelevantDocsFromMemory (rag_vectorStore ?empty)
        (generateQueryVariations ?empty ''q'' (isMathQuery ?empty ''q''))
      = ([], [SimilaritySearch ''q'' 7, SimilaritySearch ''q formula'' 7,
              MMRSearch (Some ''q'') 5 20])"
    unfolding vs st by (rule ex_empty_store_memory)
  have h1: "3 \<le> length (fst (getRelevantDocsFromMemory (rag_vectorStore ?full)
        (generateQueryVariations ?full ''q'' (isMathQuery ?full ''q''))))"
    unfolding m1 by simp
  have h2: "length (fst (getRelevantDocsFromMemory (rag_vectorStore ?empty)
        (generateQueryVariations ?empty ''q'' (isMathQuery ?empty ''q'')))) < 3"
    unfolding m2 by simp
  from retrieval_order_and_thresholds [of ex_store "[]" "[]" "[]" ?full "''q''" "Some ''key''"] h1
  have "retrieveRelevantDocs ?full ''q'' (Some ''key'')
      = getRelevantDocsFromMemory (rag_vectorStore ?full)
          (generateQueryVariations ?full ''q'' (isMathQuery ?full ''q''))"
    by blast
  then have a: "retrieveRelevantDocs ?full ''q'' (Some ''key'')
      = ([ex_doc ''alpha'', ex_doc ''beta'', ex_doc ''gamma''],
         [SimilaritySearch ''q'' 7, SimilaritySearch ''q formula'' 7])"
    unfolding m1 .
  from retrieval_order_and_thresholds [of ex_store "[]" "[]" "[]" ?empty "''q''" "Some ''key''"] h2
  have "retrieveRelevantDocs ?empty ''q'' (Some ''key'')
      = (deduplicateDocuments
           (fst (getRelevantDocsFromMemory (rag_vectorStore ?empty)
                   (generateQueryVariations ?empty ''q'' (isMathQuery ?empty ''q'')))
            @ fst (getRelevantDocsFromDatabase ?empty ''q'' (Some ''key''))),
         snd (getRelevantDocsFromMemory (rag_vectorStore ?empty)
                (generateQueryVariations ?empty ''q'' (isMathQuery ?empty ''q'')))
         @ snd (getRelevantDocsFromDatabase ?empty ''q'' (Some ''key'')))"
    by blast
  then have b: "retrieveRelevantDocs ?empty ''q'' (Some ''key'')
      = ([], [SimilaritySearch ''q'' 7, SimilaritySearch ''q formula'' 7,
              MMRSearch (Some ''q'') 5 20, EmbedQueryCall ''q'', VectorSearch])"
    unfolding m2 ex_env_database by (simp add: deduplicateDocuments_def)
  from a b show ?thesis by blast
qed

text \<open>
  The loop counts the results before deduplication: when every variant finds the same
  three chunks, it stops after the second variant with three distinct results, and the
  third variant is never tried.
\<close>

theorem variations_loop_raw_count_counterexample:
  "getRelevantDocsFromMemory (Some ex_store) [''q1'', ''q2'', ''q3'']
     = ([ex_doc ''alpha'', ex_doc ''beta'', ex_doc ''gamma''],
        [SimilaritySearch ''q1'' 7, SimilaritySearch ''q2'' 7])
   \<and> length (deduplicateDocuments
               ([ex_doc ''alpha'', ex_doc ''beta'', ex_doc ''gamma'']
                @ [ex_doc ''alpha'', ex_doc ''beta'', ex_doc ''gamma''])) < 5
   \<and> SimilaritySearch ''q3'' 7
       \<notin> set (snd (getRelevantDocsFromMemory (Some ex_store) [''q1'', ''q2'', ''q3'']))"
  by (simp add: ex_store_memory deduplicateDocuments_def contentId_def ex_doc_def)

text \<open>
  Claim C4. When no documents have been processed (\<^verbatim>\<open>vectorStore\<close> is not set),
  \<^verbatim>\<open>queryWithRAG\<close> fails with the message for "no documents processed" and has called
  neither a store, nor the embedding provider, nor the language model. When documents have been processed and the retrieval over both tiers
  yields no chunk, it fails with the message for "no relevant information", which differs
  from the first, and has not called the language model. An answer is returned only when
  the store is set and the retrieval found a chunk. Both messages reach the caller
  behind the prefix \<^verbatim>\<open>Failed to query: \<close>.
\<close>

theorem queryWithRAG_fails_before_llm:
  "(rag_vectorStore env = None \<longrightarrow>
      queryWithRAG env query apiKey history
        = (Inl (Error (''Failed to query: '' @ no_documents_message)), []))
   \<and> (rag_vectorStore env \<noteq> None \<and> fst (retrieveRelevantDocs env query apiKey) = [] \<longrightarrow>
        fst (queryWithRAG env query apiKey history)
          = Inl (Error (''Failed to query: '' @ no_relevant_information_message))
        \<and> snd (queryWithRAG env query apiKey history) = snd (retrieveRelevantDocs env query apiKey)
        \<and> (\<forall>p. LLMCall p \<notin> set (snd (queryWithRAG env query apiKey history))))
   \<and> no_documents_message \<noteq> no_relevant_information_message
   \<and> (\<forall>res. fst (queryWithRAG env query apiKey history) = Inr res \<longrightarrow>
         rag_vectorStore env \<noteq> None \<and> fst (retrieveRelevantDocs env query apiKey) \<noteq> [])"
proof -
  have a: "rag_vectorStore env = None \<longrightarrow>
      queryWithRAG env query apiKey history
        = (Inl (Error (''Failed to query: '' @ no_documents_message)), [])"
    by (simp add: queryWithRAG_def queryWithRAG_try_def message_text_def Error_def)
  have b: "fst (queryWithRAG env query apiKey history)
          = Inl (Error (''Failed to query: '' @ no_relevant_information_message))
        \<and> snd (queryWithRAG env query apiKey history) = snd (retrieveRelevantDocs env query apiKey)
        \<and> (\<forall>p. LLMCall p \<notin> set (snd (queryWithRAG env query apiKey history)))"
    if h: "rag_vectorStore env \<noteq> None" "fst (retrieveRelevantDocs env query apiKey) = []"
  proof -
    from h(1) obtain s where s: "rag_vectorStore env = Some s" by auto
    obtain ds tr where r: "retrieveRelevantDocs env query apiKey = (ds, tr)"
      by (cases "retrieveRelevantDocs env query apiKey") auto
    with h(2) have ds: "ds = []" by simp
    have q: "queryWithRAG env query apiKey history
        = (Inl (Error (''Failed to query: '' @ no_relevant_information_message)), tr)"
      by (simp add: queryWithRAG_def queryWithRAG_try_def s r ds message_text_def Error_def)
    have "\<forall>p. LLMCall p \<notin> set tr"
      using retrieveRelevantDocs_no_llm [of _ env query apiKey] r by simp
    with q r show ?thesis by simp
  qed
  have c: "no_documents_message \<noteq> no_relevant_information_message"
    by (simp add: no_documents_message_def no_relevant_information_message_def)
  have d: "rag_vectorStore env \<noteq> None \<and> fst (retrieveRelevantDocs env query apiKey) \<noteq> []"
    if h: "fst (queryWithRAG env query apiKey history) = Inr res" for res
  proof (rule ccontr)
    assume "\<not> (rag_vectorStore env \<noteq> None \<and> fst (retrieveRelevantDocs env query apiKey) \<noteq> [])"
    then consider "rag_vectorStore env = None"
      | "rag_vectorStore env \<noteq> None" "fst (retrieveRelevantDocs env query apiKey) = []"
      by blast
    then show False
    proof cases
      case 1
      with a h show False by simp
    next
      case 2
      from b [OF 2] h show False by simp
    qed
  qed
  from a b c d show ?thesis by blast
qed

text \<open>
  No store, and a store and a database that find nothing.
\<close>

theorem queryWithRAG_fails_before_llm_witness:
  "queryWithRAG (ex_env None) ''q'' (Some ''key'') None
     = (Inl (Error (''Failed to query: '' @ no_documents_message)), [])
   \<and> queryWithRAG (ex_env (Some ex_empty_store)) ''q'' (Some ''key'') None
     = (Inl (Error (''Failed to query: '' @ no_relevant_information_message)),
        [SimilaritySearch ''q'' 7, SimilaritySearch ''q formula'' 7,
         MMRSearch (Some ''q'') 5 20, EmbedQueryCall ''q'', VectorSearch])"
proof -
  let ?empty = "ex_env (Some ex_empty_store)"
  have h1: "rag_vectorStore (ex_env None) = None"
    by (simp add: ex_env_def)
  have r: "retrieveRelevantDocs ?empty ''q'' (Some ''key'')
      = ([], [SimilaritySearch ''q'' 7, SimilaritySearch ''q formula'' 7,
              MMRSearch (Some ''q'') 5 20, EmbedQueryCall ''q'', VectorSearch])"
  proof -
    have "getRelevantDocsFromMemory (rag_vectorStore ?empty)
        (generateQueryVariations ?empty ''q'' (isMathQuery ?empty ''q''))
      = ([], [SimilaritySearch ''q'' 7, SimilaritySearch ''q formula'' 7,
              MMRSearch (Some ''q'') 5 20])"
      using ex_empty_store_memory [of "''q''" "''q formula''"] by (simp add: ex_env_def)
    then show ?thesis
      by (simp add: retrieveRelevantDocs_def Let_def ex_env_database deduplicateDocuments_def)
  qed
  have h2: "rag_vectorStore ?empty \<noteq> None \<and> fst (retrieveRelevantDocs ?empty ''q'' (Some ''key'')) = []"
    by (simp add: r) (simp add: ex_env_def)
  from queryWithRAG_fails_before_llm [of "ex_env None" "''q''" "Some ''key''" None] h1
  have a: "queryWithRAG (ex_env None) ''q'' (Some ''key'') None
     = (Inl (Error (''Failed to query: '' @ no_documents_message)), [])"
    by blast
  from queryWithRAG_fails_before_llm [of ?empty "''q''" "Some ''key''" None] h2
  have "fst (queryWithRAG ?empty ''q'' (Some ''key'') None)
          = Inl (Error (''Failed to query: '' @ no_relevant_information_message))
        \<and> snd (queryWithRAG ?empty ''q'' (Some ''key'') None)
          = snd (retrieveRelevantDocs ?empty ''q'' (Some ''key''))"
    by blast
  then have b: "queryWithRAG ?empty ''q'' (Some ''key'') None
     = (Inl (Error (''Failed to query: '' @ no_relevant_information_message)),
        [SimilaritySearch ''q'' 7, SimilaritySearch ''q formula'' 7,
         MMRSearch (Some ''q'') 5 20, EmbedQueryCall ''q'', VectorSearch])"
    unfolding r by (simp add: prod_eq_iff)
  from a b show ?thesis by blast
qed

end
